theory Spec2Isabelle
  imports Main
begin

section \<open>Document nodes and JavaScript array plumbing\<close>

text \<open>
  The output unit of \<^verbatim>\<open>src/output/markdown_ast.js\<close>: the nodes that \<^verbatim>\<open>unist-builder\<close>
  (\<^verbatim>\<open>u(type, props, children-or-value)\<close>) constructs. A heading carries its depth, a list
  its \<^verbatim>\<open>ordered\<close> flag, a code block its \<^verbatim>\<open>lang\<close>, a link its url and optional title.
\<close>

datatype node =
    Root "node list"
  | Heading nat "node list"
  | Paragraph "node list"
  | ListNode bool "node list"
  | ListItem "node list"
  | Text string
  | Strong "node list"
  | Emphasis "node list"
  | InlineCode string
  | Code "string option" string
  | Link string "string option" "node list"
  | Html string
  | ThematicBreak

text \<open>
  The section builders return \<^verbatim>\<open>false\<close>, \<^verbatim>\<open>undefined\<close>, one node or an array, and the
  generator chains the results with \<^verbatim>\<open>Array.prototype.concat\<close> before a final
  \<^verbatim>\<open>.filter(Boolean)\<close>. An array element is therefore a node or one of the two falsy
  values; the argument of \<^verbatim>\<open>concat\<close> is an array (spliced) or a single value (appended).
\<close>

datatype item = N node | JFalse | JUndefined

datatype concat_arg = Arr "item list" | One item

fun concat_js :: "item list \<Rightarrow> concat_arg \<Rightarrow> item list" where
  "concat_js xs (Arr ys) = xs @ ys"
| "concat_js xs (One v) = xs @ [v]"

fun filter_Boolean :: "item list \<Rightarrow> node list" where
  "filter_Boolean [] = []"
| "filter_Boolean (N n # xs) = n # filter_Boolean xs"
| "filter_Boolean (JFalse # xs) = filter_Boolean xs"
| "filter_Boolean (JUndefined # xs) = filter_Boolean xs"

text \<open>Truthiness of an optional string property: absent and the empty string are falsy.\<close>

fun truthy :: "string option \<Rightarrow> bool" where
  "truthy None = False"
| "truthy (Some s) = (s \<noteq> [])"

text \<open>\<^verbatim>\<open>x || ''\<close> on an optional string.\<close>

fun or_empty :: "string option \<Rightarrow> string" where
  "or_empty None = []"
| "or_empty (Some s) = s"

text \<open>\<^verbatim>\<open>Array.prototype.join\<close> on strings.\<close>

fun join :: "string \<Rightarrow> string list \<Rightarrow> string" where
  "join sep [] = []"
| "join sep [x] = x"
| "join sep (x # y # ys) = x @ sep @ join sep (y # ys)"

section \<open>Errors\<close>

text \<open>
  Reading \<^verbatim>\<open>.length\<close> (or any property) of \<^verbatim>\<open>undefined\<close> raises a \<^verbatim>\<open>TypeError\<close>, which
  nothing in the module catches. Fallible code returns \<open>error + 'a\<close>.
\<close>

datatype error = TypeError

definition bindE :: "error + 'a \<Rightarrow> ('a \<Rightarrow> error + 'b) \<Rightarrow> error + 'b" where
  "bindE m f = (case m of Inl e \<Rightarrow> Inl e | Inr x \<Rightarrow> f x)"

text \<open>Access to a property of a sequence that may be \<^verbatim>\<open>undefined\<close>.\<close>

definition deref :: "'a option \<Rightarrow> error + 'a" where
  "deref x = (case x of None \<Rightarrow> Inl TypeError | Some v \<Rightarrow> Inr v)"

section \<open>The comment model\<close>

text \<open>
  A type expression is opaque to this module: it is only tested for presence and handed
  to the type formatter.
\<close>

datatype texpr =
    NameExpression string
  | Literal string
  | UnionType "texpr list"
  | TypeApplication texpr "texpr list"
  | FunctionType "texpr list" "texpr option"

text \<open>
  The \<^verbatim>\<open>type\<close> property of a comment. The module tests it for truthiness, and
  \<^verbatim>\<open>Object.assign\<close> copies it when it is an own property, whatever it holds: so a comment
  without the property differs from one whose property holds a falsy value
  (\<^verbatim>\<open>undefined\<close>, \<^verbatim>\<open>null\<close>, the empty string).
\<close>

datatype type_property = NoTypeProperty | FalsyType | TypeExpression texpr

text \<open>
  A \<^verbatim>\<open>Remark\<close> value (a pre-parsed description: a root node owning children) is
  represented by its children; where the source inserts the object itself as a node it
  becomes \<open>Root\<close> of them.
\<close>

type_synonym remark = "node list"

datatype tag = Tag
  (tag_name: string)
  (tag_type: "texpr option")
  (tag_description: "remark option")
  (tag_default: "string option")
  (tag_properties: "tag list option")

record example =
  caption :: "remark option"
  ex_description :: string

record github =
  url :: string
  path :: string

record comment_context =
  github :: "github option"
  loc_start_line :: nat

record entry =
  name :: "string option"
  kind :: "string option"
  description :: "remark option"
  type :: type_property
  params :: "tag list option"
  properties :: "tag list option"
  returns :: "tag list option"
  throws :: "tag list option"
  sees :: "remark list option"
  examples :: "example list option"
  augments :: "tag list option"
  c_context :: "comment_context option"
  version :: "string option"
  since :: "string option"
  copyright :: "remark option"
  author :: "string option"
  license :: "string option"
  deprecated :: "remark option"

datatype 'a members = Members
  (m_static: "'a list option")
  (m_instance: "'a list option")
  (m_global: "'a list option")
  (m_inner: "'a list option")

datatype comment = Comment (c_fields: entry) (c_members: "comment members option")

section \<open>Collaborators captured by the generator\<close>

text \<open>
  \<^verbatim>\<open>formatType\<close> is \<^verbatim>\<open>_formatType\<close> of \<^verbatim>\<open>./util/format_type\<close> bound to the link resolver;
  that file is not part of the source at hand, so the formatter is a parameter. It is
  called on a type expression (possibly \<^verbatim>\<open>undefined\<close>) and, by \<^verbatim>\<open>typeSection\<close>, on the
  object \<^verbatim>\<open>Object.assign({type: 'FunctionType'}, comment, {result: ...})\<close>: a copy of the
  whole comment with the extra property \<^verbatim>\<open>result\<close>. Its \<^verbatim>\<open>type\<close> is the string
  \<^verbatim>\<open>FunctionType\<close> unless the comment has an own \<^verbatim>\<open>type\<close> property, which is copied over
  the default; in the branch that builds the object that own value is falsy, written
  \<open>None\<close> here.
\<close>

datatype fmt_arg =
    TypeArg "texpr option"
  | Synthesized "string option" comment "texpr option"

text \<open>
  What \<^verbatim>\<open>generate\<close> closes over: the bound formatter, \<^verbatim>\<open>hljsOptions.highlightAuto\<close> and
  the classifier \<^verbatim>\<open>hljs.highlightAuto(code).language\<close> of the highlighting library.
\<close>

record hljs_options =
  highlightAuto :: bool

record closure =
  formatType :: "fmt_arg \<Rightarrow> node list"
  hljsOptions :: hljs_options
  hljs_language :: "string \<Rightarrow> string option"

definition DEFAULT_LANGUAGE :: string where
  "DEFAULT_LANGUAGE = ''javascript''"

section \<open>Section builders\<close>

text \<open>\<^verbatim>\<open>x.description ? x.description.children : []\<close>\<close>

fun description_children :: "remark option \<Rightarrow> node list" where
  "description_children None = []"
| "description_children (Some r) = r"

text \<open>
  A builder's result used as an element of an array literal. \<^verbatim>\<open>paramList\<close> returns an
  array only for an empty sequence, and its one use as an element (in \<^verbatim>\<open>paramSection\<close>)
  is guarded by \<^verbatim>\<open>params.length > 0\<close>, so the second equation is never reached.
\<close>

fun as_element :: "concat_arg \<Rightarrow> item" where
  "as_element (One v) = v"
| "as_element (Arr xs) = JUndefined"

fun typeSection :: "closure \<Rightarrow> comment \<Rightarrow> concat_arg" where
  "typeSection cl (Comment e ms) =
     (case type e of
        TypeExpression t \<Rightarrow>
          One (N (Paragraph ([Text ''Type: ''] @ formatType cl (TypeArg (Some t)))))
      | _ \<Rightarrow>
          if truthy (kind e) then
            (let result = (case returns e of
                             None \<Rightarrow> None
                           | Some [] \<Rightarrow> None
                           | Some (r # rs) \<Rightarrow> tag_type r);
                 c = Synthesized
                       (case type e of NoTypeProperty \<Rightarrow> Some ''FunctionType'' | _ \<Rightarrow> None)
                       (Comment e ms) result
             in One (N (Paragraph ([Text ''Type: ''] @ formatType cl c))))
          else One JUndefined)"

fun paramList :: "closure \<Rightarrow> tag list \<Rightarrow> concat_arg"
  and paramItem :: "closure \<Rightarrow> tag \<Rightarrow> node" where
  "paramList cl ps =
     (if length ps = 0 then Arr []
      else One (N (ListNode False (map (paramItem cl) ps))))"
| "paramItem cl (Tag nm ty de df pr) =
     ListItem (filter_Boolean (concat_js
       [N (Paragraph (filter_Boolean
          (([N (InlineCode nm),
             N (Text '' ''),
             (case ty of None \<Rightarrow> JFalse
              | Some t \<Rightarrow> N (Strong (formatType cl (TypeArg (Some t))))),
             N (Text '' '')]
            @ map N (description_children de))
            @ [if truthy df
               then N (Paragraph [Text '' (optional, default '',
                                  InlineCode (or_empty df),
                                  Text '')''])
               else JFalse])))]
       (case pr of None \<Rightarrow> One JUndefined | Some ps \<Rightarrow> paramList cl ps)))"

definition paramSection :: "closure \<Rightarrow> entry \<Rightarrow> error + concat_arg" where
  "paramSection cl e =
     bindE (deref (params e)) (\<lambda>ps.
       Inr (if length ps > 0 then Arr [as_element (paramList cl ps)] else One JFalse))"

fun propertyList :: "closure \<Rightarrow> tag list \<Rightarrow> node"
  and propertyItem :: "closure \<Rightarrow> tag \<Rightarrow> node" where
  "propertyList cl ps = ListNode False (map (propertyItem cl) ps)"
| "propertyItem cl (Tag nm ty de df pr) =
     ListItem (filter_Boolean
       [N (Paragraph (filter_Boolean
          ([N (InlineCode nm),
            N (Text '' ''),
            N (Strong (formatType cl (TypeArg ty))),
            N (Text '' '')]
           @ map N (description_children de)))),
        (case pr of None \<Rightarrow> JUndefined | Some ps \<Rightarrow> N (propertyList cl ps))])"

definition propertySection :: "closure \<Rightarrow> entry \<Rightarrow> error + concat_arg" where
  "propertySection cl e =
     bindE (deref (properties e)) (\<lambda>ps.
       Inr (if length ps > 0 then Arr [N (propertyList cl ps)] else One JFalse))"

text \<open>
  The caption of an example is a pre-parsed \<^verbatim>\<open>Remark\<close>, handed to the node builder in
  \<^verbatim>\<open>u('emphasis', example.caption)\<close>; the model makes its children the content of the emphasis
  node.
\<close>

definition examplesSection :: "closure \<Rightarrow> entry \<Rightarrow> error + concat_arg" where
  "examplesSection cl e =
     bindE (deref (examples e)) (\<lambda>exs.
       Inr (if length exs > 0
            then Arr ([N (Text ''Examples:'')] @
              foldl (\<lambda>memo ex.
                  (let language = (if highlightAuto (hljsOptions cl) then hljs_language cl (ex_description ex)
                                   else Some DEFAULT_LANGUAGE)
                   in (memo @ (case caption ex of
                                 Some c \<Rightarrow> [N (Paragraph [Emphasis c])]
                               | None \<Rightarrow> []))
                      @ [N (Code language (ex_description ex))]))
                [] exs)
            else One JFalse))"

definition returnsSection :: "closure \<Rightarrow> entry \<Rightarrow> error + concat_arg" where
  "returnsSection cl e =
     bindE (deref (returns e)) (\<lambda>rs.
       Inr (if length rs > 0
            then Arr (map (\<lambda>r. N (Paragraph
                   ([Text ''Returns:'',
                     Text '' '',
                     Strong (formatType cl (TypeArg (tag_type r))),
                     Text '' ''] @ description_children (tag_description r)))) rs)
            else One JFalse))"

definition throwsSection :: "closure \<Rightarrow> entry \<Rightarrow> error + concat_arg" where
  "throwsSection cl e =
     bindE (deref (throws e)) (\<lambda>ts.
       Inr (if length ts > 0
            then One (N (ListNode False (map (\<lambda>r. ListItem [Paragraph
                   ([Text ''Throws:'',
                     Text '' '',
                     Strong (formatType cl (TypeArg (tag_type r))),
                     Text '' ''] @ description_children (tag_description r))]) ts)))
            else One JFalse))"

definition augmentsLink :: "entry \<Rightarrow> error + concat_arg" where
  "augmentsLink e =
     bindE (deref (augments e)) (\<lambda>as.
       Inr (if length as > 0
            then One (N (Paragraph [Strong
                   [Text ''Extends: '', Text (join '', '' (map tag_name as))]]))
            else One JFalse))"

definition seeLink :: "entry \<Rightarrow> error + concat_arg" where
  "seeLink e =
     bindE (deref (sees e)) (\<lambda>ss.
       Inr (if length ss > 0
            then One (N (ListNode False
                   (map (\<lambda>see. ListItem [Strong ([Text ''See: ''] @ see)]) ss)))
            else One JFalse))"

text \<open>Decimal rendering of a number, as string concatenation does it.\<close>

fun digits :: "nat \<Rightarrow> string" where
  "digits n =
     (if n < 10 then [char_of (48 + n)]
      else digits (n div 10) @ [char_of (48 + n mod 10)])"

definition githubLink :: "entry \<Rightarrow> concat_arg" where
  "githubLink e =
     (case c_context e of
        None \<Rightarrow> One JUndefined
      | Some ctx \<Rightarrow>
          (case github ctx of
             None \<Rightarrow> One JUndefined
           | Some gh \<Rightarrow>
               One (N (Paragraph
                 [Text ''Source: '',
                  Link (url gh) (Some ''Source code on GitHub'')
                    [Text (path gh @ '':'' @ digits (loc_start_line ctx))]]))))"

text \<open>
  The value of \<^verbatim>\<open>comment[tag]\<close> for the six metadata tags: \<^verbatim>\<open>copyright\<close> and \<^verbatim>\<open>deprecated\<close>
  hold a \<^verbatim>\<open>Remark\<close> object, the others a string.
\<close>

datatype meta_value = Str string | Obj remark

fun meta_prop :: "entry \<Rightarrow> string \<Rightarrow> meta_value option" where
  "meta_prop e tag =
     (if tag = ''version'' then map_option Str (version e)
      else if tag = ''since'' then map_option Str (since e)
      else if tag = ''copyright'' then map_option Obj (copyright e)
      else if tag = ''author'' then map_option Str (author e)
      else if tag = ''license'' then map_option Str (license e)
      else if tag = ''deprecated'' then map_option Obj (deprecated e)
      else None)"

fun truthy_value :: "meta_value option \<Rightarrow> bool" where
  "truthy_value None = False"
| "truthy_value (Some (Str s)) = (s \<noteq> [])"
| "truthy_value (Some (Obj r)) = True"

definition meta_tags :: "string list" where
  "meta_tags = [''version'', ''since'', ''copyright'', ''author'', ''license'', ''deprecated'']"

text \<open>
  \<^verbatim>\<open>metaContent\<close>: the object itself for \<^verbatim>\<open>copyright\<close> and \<^verbatim>\<open>deprecated\<close>, a text node of
  the string otherwise. Only tags that passed the truthiness filter get here, so the
  fall-through cases stand for no run of the source.
\<close>

fun metaContent :: "entry \<Rightarrow> string \<Rightarrow> node" where
  "metaContent e tag =
     (if tag = ''copyright'' \<or> tag = ''deprecated''
      then (case meta_prop e tag of Some (Obj r) \<Rightarrow> Root r | _ \<Rightarrow> Root [])
      else Text (case meta_prop e tag of Some (Str s) \<Rightarrow> s | _ \<Rightarrow> []))"

definition metaSection :: "entry \<Rightarrow> concat_arg" where
  "metaSection e =
     (let meta = filter (\<lambda>tag. truthy_value (meta_prop e tag)) meta_tags
      in if length meta \<noteq> 0
         then Arr (concat_js [N (Strong [Text ''Meta''])]
                (One (N (ListNode False
                  (map (\<lambda>tag. ListItem [Paragraph
                           [Strong [Text tag], Text '': '', metaContent e tag]]) meta)))))
         else One JFalse)"

section \<open>The recursive tree generator\<close>

text \<open>
  \<^verbatim>\<open>xs.reduce((memo, x) => f(memo, x), init)\<close> where \<^verbatim>\<open>f\<close> may throw: the first exception
  ends the fold.
\<close>

fun reduceE :: "('b \<Rightarrow> 'a \<Rightarrow> error + 'b) \<Rightarrow> 'a list \<Rightarrow> 'b \<Rightarrow> error + 'b" where
  "reduceE f [] memo = Inr memo"
| "reduceE f (x # xs) memo = bindE (f memo x) (reduceE f xs)"

lemma bindE_cong [fundef_cong]:
  "m = m' \<Longrightarrow> (\<And>x. m' = Inr x \<Longrightarrow> f x = g x) \<Longrightarrow> bindE m f = bindE m' g"
  by (cases m') (simp_all add: bindE_def)

lemma reduceE_cong [fundef_cong]:
  "xs = ys \<Longrightarrow> a = b \<Longrightarrow> (\<And>memo x. x \<in> set ys \<Longrightarrow> f memo x = g memo x)
   \<Longrightarrow> reduceE f xs a = reduceE g ys b"
proof (induction ys arbitrary: xs a b)
  case Nil
  then show ?case by simp
next
  case (Cons y ys)
  have step: "reduceE f ys = reduceE g ys"
  proof
    fix m
    show "reduceE f ys m = reduceE g ys m"
      by (rule Cons.IH) (simp_all add: Cons.prems)
  qed
  show ?case
    using Cons.prems by (simp add: step)
qed

text \<open>
  \<^verbatim>\<open>comment.members.static\<close> and its three siblings: a \<^verbatim>\<open>TypeError\<close> when \<^verbatim>\<open>members\<close> is
  missing, and again (at \<^verbatim>\<open>.length\<close>) when the group itself is.
\<close>

definition members_group :: "('a members \<Rightarrow> 'a list option) \<Rightarrow> 'a members option \<Rightarrow> error + 'a list" where
  "members_group sel ms = bindE (deref ms) (\<lambda>m. deref (sel m))"

text \<open>\<^verbatim>\<open>!!xs.length && ys\<close>, as an argument of \<^verbatim>\<open>concat\<close>.\<close>

definition nonempty_and :: "'a list \<Rightarrow> node list \<Rightarrow> concat_arg" where
  "nonempty_and xs ys = (if length xs \<noteq> 0 then Arr (map N ys) else One JFalse)"

text \<open>The heading content of a standard entry, wrapped in a link when github origin info exists.\<close>

definition heading_content :: "entry \<Rightarrow> node list" where
  "heading_content e =
     (let heading = [Text (or_empty (name e))]
      in case c_context e of
           None \<Rightarrow> heading
         | Some ctx \<Rightarrow>
             (case github ctx of
                None \<Rightarrow> heading
              | Some gh \<Rightarrow> [Link (url gh) None heading]))"

lemma member_size:
  assumes "x \<in> set xs"
    and "m_static m = Some xs \<or> m_instance m = Some xs \<or> m_global m = Some xs \<or> m_inner m = Some xs"
  shows "size x < Suc (Suc (size_members size m))"
proof -
  have le: "size x \<le> size_list size xs"
    using assms(1) by (rule size_list_estimation') simp
  show ?thesis
    using assms(2) le by (cases m) auto
qed

function generate :: "closure \<Rightarrow> nat \<Rightarrow> comment \<Rightarrow> error + node list" where
  "generate cl depth (Comment e ms) =
     (if kind e = Some ''note'' then
        bindE (members_group m_static ms) (\<lambda>st.
        bindE (reduceE (\<lambda>memo child.
                 bindE (generate cl (depth + 1) child) (\<lambda>r. Inr (memo @ r))) st []) (\<lambda>kids.
        Inr (filter_Boolean
          (concat_js
            (concat_js [N (Heading depth [Text (or_empty (name e))])]
              (case description e of None \<Rightarrow> One JUndefined | Some r \<Rightarrow> One (N (Root r))))
            (nonempty_and st kids)))))
      else
        bindE (augmentsLink e) (\<lambda>a_augments.
        bindE (seeLink e) (\<lambda>a_sees.
        bindE (paramSection cl e) (\<lambda>a_params.
        bindE (propertySection cl e) (\<lambda>a_properties.
        bindE (throwsSection cl e) (\<lambda>a_throws.
        bindE (examplesSection cl e) (\<lambda>a_examples.
        bindE (members_group m_global ms) (\<lambda>gl.
        bindE (reduceE (\<lambda>memo child.
                 bindE (generate cl (depth + 1) child) (\<lambda>r. Inr (memo @ r))) gl []) (\<lambda>k_global.
        bindE (members_group m_instance ms) (\<lambda>ins.
        bindE (reduceE (\<lambda>memo child.
                 bindE (generate cl (depth + 1) child) (\<lambda>r. Inr (memo @ r))) ins []) (\<lambda>k_instance.
        bindE (members_group m_static ms) (\<lambda>st.
        bindE (reduceE (\<lambda>memo child.
                 bindE (generate cl (depth + 1) child) (\<lambda>r. Inr (memo @ r))) st []) (\<lambda>k_static.
        bindE (members_group m_inner ms) (\<lambda>inn.
        bindE (reduceE (\<lambda>memo child.
                 bindE (generate cl (depth + 1) child) (\<lambda>r. Inr (memo @ r))) inn []) (\<lambda>k_inner.
        Inr (filter_Boolean
          (concat_js (concat_js (concat_js (concat_js
          (concat_js (concat_js (concat_js (concat_js (concat_js
          (concat_js (concat_js (concat_js (concat_js (concat_js
            [N ThematicBreak]
            (Arr [N (Heading depth (heading_content e))]))
            a_augments)
            a_sees)
            (Arr (map N (description_children (description e)))))
            (typeSection cl (Comment e ms)))
            a_params)
            a_properties)
            a_throws)
            a_examples)
            (metaSection e))
            (nonempty_and gl k_global))
            (nonempty_and ins k_instance))
            (nonempty_and st k_static))
            (nonempty_and inn k_inner))))))))))))))))))"
  by pat_completeness auto
termination
proof (relation "measure (\<lambda>(cl, depth, c). size c)")
  show "wf (measure (\<lambda>(cl, depth, c). size c))" by simp
qed (auto simp: members_group_def bindE_def deref_def split: option.splits intro: member_size)

text \<open>
  The fold every member group (and the forest itself) is run through:
  \<^verbatim>\<open>xs.reduce((memo, child) => memo.concat(generate(depth, child)), [])\<close>.
\<close>

definition children :: "closure \<Rightarrow> nat \<Rightarrow> comment list \<Rightarrow> error + node list" where
  "children cl depth xs =
     reduceE (\<lambda>memo child. bindE (generate cl depth child) (\<lambda>r. Inr (memo @ r))) xs []"

section \<open>The anchor function and the slugger it instantiates\<close>

text \<open>
  \<^verbatim>\<open>github-slugger\<close> is an external package. Its class keeps a table \<^verbatim>\<open>occurrences\<close>; the
  method \<^verbatim>\<open>slug\<close> normalises the text (lower case, trimmed, punctuation removed, white
  space turned into hyphens) and, while the candidate is already in the table, bumps the
  counter of the original slug and appends it. The definitions below follow that
  documented behaviour for ASCII input. Inside the loop the original slug is always in the
  table (the first candidate is the original slug itself), so the \<open>None\<close> case of its
  look-up is never reached.
\<close>

definition whitespace :: "char \<Rightarrow> bool" where
  "whitespace c = (of_char c \<in> {9, 10, 11, 12, 13, 32 :: nat})"

definition specials :: "char \<Rightarrow> bool" where
  "specials c = (of_char c \<in>
     {92, 39, 33, 34, 35, 36, 37, 38, 40, 41, 42, 43, 44, 46, 47, 58, 59, 60, 61, 62, 63, 64,
      91, 93, 94, 96, 123, 124, 125, 126 :: nat})"

definition toLowerCase :: "string \<Rightarrow> string" where
  "toLowerCase s =
     map (\<lambda>c. if 65 \<le> (of_char c :: nat) \<and> (of_char c :: nat) \<le> 90
              then char_of (of_char c + 32 :: nat) else c) s"

definition trim :: "string \<Rightarrow> string" where
  "trim s = rev (dropWhile whitespace (rev (dropWhile whitespace s)))"

definition slugger :: "string \<Rightarrow> string" where
  "slugger s =
     map (\<lambda>c. if whitespace c then CHR ''-'' else c)
       (filter (\<lambda>c. \<not> specials c) (trim (toLowerCase s)))"

type_synonym occurrences = "string \<rightharpoonup> nat"

partial_function (option)
  slug_loop :: "occurrences \<Rightarrow> string \<Rightarrow> string \<Rightarrow> (string \<times> occurrences) option" where
  "slug_loop occ originalSlug slug =
     (if occ slug \<noteq> None
      then (case occ originalSlug of
              None \<Rightarrow> None
            | Some k \<Rightarrow>
                slug_loop (occ(originalSlug \<mapsto> k + 1)) originalSlug
                  (originalSlug @ ''-'' @ digits (k + 1)))
      else Some (slug, occ))"

declare slug_loop.simps [code]

definition slug :: "occurrences \<Rightarrow> string \<Rightarrow> (string \<times> occurrences) option" where
  "slug occ v =
     (case slug_loop occ (slugger v) (slugger v) of
        None \<Rightarrow> None
      | Some (s, occ') \<Rightarrow> Some (s, occ'(s \<mapsto> 0)))"

text \<open>
  The function handed to \<^verbatim>\<open>namespaceResolver\<close>:
  \<^verbatim>\<open>namespace => { const slugger = new GithubSlugger(); return '#' + slugger.slug(namespace); }\<close>.
  Every call starts from an empty table.
\<close>

definition anchor :: "string \<Rightarrow> string option" where
  "anchor namespace =
     (case slug Map.empty namespace of
        None \<Rightarrow> None
      | Some (s, occ) \<Rightarrow> Some (''#'' @ s))"

section \<open>The entry point\<close>

record config =
  markdownToc :: bool
  hljs :: "hljs_options option"
  noReferenceLinks :: bool

text \<open>
  The modules and plugins \<^verbatim>\<open>buildMarkdownAST\<close> calls and this file does not define:
  \<^verbatim>\<open>new LinkerStack(config).namespaceResolver(comments, fn).link\<close>, \<^verbatim>\<open>_formatType\<close>,
  \<^verbatim>\<open>rerouteLinks\<close>, the highlighter's classifier and the two remark plugins. They are
  parameters, and as HOL functions they are total: none of them throws.
\<close>

type_synonym linker = "string \<Rightarrow> string option"

record collaborators =
  namespaceResolver :: "config \<Rightarrow> comment list \<Rightarrow> (string \<Rightarrow> string option) \<Rightarrow> linker"
  format_type :: "linker \<Rightarrow> fmt_arg \<Rightarrow> node list"
  rerouteLinks :: "linker \<Rightarrow> node \<Rightarrow> node"
  hljs_highlightAuto :: "string \<Rightarrow> string option"
  toc :: "node \<Rightarrow> node"
  links :: "node \<Rightarrow> node"

definition generatorComment :: "node list" where
  "generatorComment =
     [Html ''<!-- Generated by documentation.js. Update this documentation by updating the source code. -->'']"

definition tableOfContentsHeading :: "node list" where
  "tableOfContentsHeading = [Heading 3 [Text ''Table of Contents'']]"

text \<open>
  \<^verbatim>\<open>hljs.configure(hljsOptions)\<close> sets the configuration of the highlighting library for
  the classifier, which is a parameter here. The promise the function returns is resolved
  with the tree the two remark plugins produce, or the call throws.
\<close>

definition buildMarkdownAST :: "collaborators \<Rightarrow> comment list \<Rightarrow> config \<Rightarrow> error + node" where
  "buildMarkdownAST ext comments cfg =
     (let hljsOptions = (case hljs cfg of None \<Rightarrow> \<lparr>highlightAuto = False\<rparr> | Some opts \<Rightarrow> opts);
          linkerStack = namespaceResolver ext cfg comments anchor;
          cl = \<lparr>formatType = format_type ext linkerStack,
                hljsOptions = hljsOptions,
                hljs_language = hljs_highlightAuto ext\<rparr>
      in bindE (children cl 2 comments) (\<lambda>body.
         (let root = rerouteLinks ext linkerStack
                (Root (((generatorComment
                   @ (if markdownToc cfg then tableOfContentsHeading else []))
                   @ body)
                   @ [ThematicBreak]));
              root = (if markdownToc cfg then toc ext root else root);
              root = (if noReferenceLinks cfg \<noteq> True then links ext root else root)
          in Inr root)))"

section \<open>Notions used to state the properties\<close>

text \<open>
  A forest meets the precondition of the generator when every entry has its seven tag
  sequences and all four member groups, recursively.
\<close>

lemma size_le_size_list: "x \<in> set xs \<Longrightarrow> size x \<le> size_list size xs"
  by (induction xs) auto

fun all_groups :: "'a members option \<Rightarrow> 'a list option" where
  "all_groups (Some (Members (Some st) (Some ins) (Some gl) (Some inn))) = Some (st @ ins @ gl @ inn)"
| "all_groups ms = None"

lemma all_groups_Some:
  "all_groups ms = Some cs \<longleftrightarrow>
     (\<exists>st ins gl inn. ms = Some (Members (Some st) (Some ins) (Some gl) (Some inn))
        \<and> cs = st @ ins @ gl @ inn)"
  by (cases ms rule: all_groups.cases) auto

function well_formed :: "comment \<Rightarrow> bool" where
  "well_formed (Comment e ms) =
     (params e \<noteq> None \<and> properties e \<noteq> None \<and> returns e \<noteq> None \<and> throws e \<noteq> None
      \<and> sees e \<noteq> None \<and> examples e \<noteq> None \<and> augments e \<noteq> None
      \<and> (case all_groups ms of
            Some cs \<Rightarrow> list_all well_formed cs
          | None \<Rightarrow> False))"
  by pat_completeness auto
termination
proof (relation "measure size")
  show "wf (measure size)" by simp
qed (auto simp: all_groups_Some dest: size_le_size_list)

text \<open>
  The members \<^verbatim>\<open>generate\<close> recurses into, in the order it does: the static group for a
  note, global, instance, static, inner otherwise.
\<close>

fun listed :: "'a list option \<Rightarrow> 'a list" where
  "listed None = []"
| "listed (Some xs) = xs"

fun visited :: "comment \<Rightarrow> comment list" where
  "visited (Comment e None) = []"
| "visited (Comment e (Some (Members st ins gl inn))) =
     (if kind e = Some ''note'' then listed st
      else listed gl @ listed ins @ listed st @ listed inn)"

lemma listed_size: "x \<in> set (listed xs) \<Longrightarrow> size x \<le> size_option (size_list size) xs"
  by (cases xs) (auto dest: size_le_size_list)

lemma visited_size: "x \<in> set (visited c) \<Longrightarrow> size x < size c"
  by (cases c rule: visited.cases) (auto split: if_splits dest: listed_size)


text \<open>
  Where the heading nodes of the output come from, as the specification has it: each
  visited entry at nesting level \<open>level\<close> gets one heading, built by the generator at
  depth \<open>2 + level\<close>; the children of the description of a standard entry are copied into
  the output after it, so a heading among them arrives with the depth it carries; the
  visited members follow, one level deeper. (The description of a note is inserted as one
  root node, which is no heading.)
\<close>

datatype heading_origin = Generated nat | FromDescription nat




text \<open>The nodes one example contributes.\<close>

definition example_nodes :: "closure \<Rightarrow> example \<Rightarrow> node list" where
  "example_nodes cl ex =
     (case caption ex of Some c \<Rightarrow> [Paragraph [Emphasis c]] | None \<Rightarrow> [])
     @ [Code (if highlightAuto (hljsOptions cl) then hljs_language cl (ex_description ex)
              else Some DEFAULT_LANGUAGE) (ex_description ex)]"

text \<open>
  The paragraphs \<^verbatim>\<open>returnsSection\<close> and \<^verbatim>\<open>githubLink\<close> build start with the text
  \<^verbatim>\<open>Returns:\<close> and \<^verbatim>\<open>Source: \<close>; \<open>contains_section\<close> finds one anywhere in a tree. The
  remaining predicates say that the content handed in from outside (descriptions, see-also
  entries, captions, copyright and deprecation notes) has none.
\<close>

fun is_section_paragraph :: "node \<Rightarrow> bool" where
  "is_section_paragraph (Paragraph (Text s # rest)) = (s = ''Returns:'' \<or> s = ''Source: '')"
| "is_section_paragraph n = False"

fun contains_section :: "node \<Rightarrow> bool" where
  "contains_section (Root ch) = list_ex contains_section ch"
| "contains_section (Heading d ch) = list_ex contains_section ch"
| "contains_section (Paragraph ch) =
     (is_section_paragraph (Paragraph ch) \<or> list_ex contains_section ch)"
| "contains_section (ListNode ordered ch) = list_ex contains_section ch"
| "contains_section (ListItem ch) = list_ex contains_section ch"
| "contains_section (Strong ch) = list_ex contains_section ch"
| "contains_section (Emphasis ch) = list_ex contains_section ch"
| "contains_section (Link u t ch) = list_ex contains_section ch"
| "contains_section (Text s) = False"
| "contains_section (InlineCode s) = False"
| "contains_section (Code lang s) = False"
| "contains_section (Html s) = False"
| "contains_section ThematicBreak = False"

definition clean :: "node list \<Rightarrow> bool" where
  "clean ns = (\<not> list_ex contains_section ns)"

fun clean_tag :: "tag \<Rightarrow> bool" where
  "clean_tag (Tag nm ty de df pr) =
     (clean (description_children de)
      \<and> (case pr of None \<Rightarrow> True | Some ps \<Rightarrow> list_all clean_tag ps))"

definition clean_entry :: "entry \<Rightarrow> bool" where
  "clean_entry e =
     (clean (description_children (description e))
      \<and> list_all clean (listed (sees e))
      \<and> list_all clean_tag (listed (params e))
      \<and> list_all clean_tag (listed (properties e))
      \<and> list_all clean_tag (listed (throws e))
      \<and> list_all (\<lambda>ex. clean (description_children (caption ex))) (listed (examples e))
      \<and> clean (description_children (copyright e))
      \<and> clean (description_children (deprecated e)))"

function clean_comment :: "comment \<Rightarrow> bool" where
  "clean_comment c = (clean_entry (c_fields c) \<and> list_all clean_comment (visited c))"
  by pat_completeness auto
termination
  by (relation "measure size") (auto dest: visited_size)

declare clean_comment.simps [simp del]


section \<open>Sample inputs\<close>

text \<open>Concrete values on which the theorems below are instantiated.\<close>

fun type_label :: "texpr \<Rightarrow> string" where
  "type_label (NameExpression s) = s"
| "type_label (Literal s) = s"
| "type_label (UnionType ts) = ''union''"
| "type_label (TypeApplication t ts) = ''application''"
| "type_label (FunctionType ps r) = ''function''"

fun sample_format :: "fmt_arg \<Rightarrow> node list" where
  "sample_format (TypeArg None) = [Text ''any'']"
| "sample_format (TypeArg (Some t)) = [InlineCode (type_label t)]"
| "sample_format (Synthesized (Some tag) c None) =
     [Text (''function ('' @ join '', '' (map tag_name (listed (params (c_fields c)))) @ '')'')]"
| "sample_format (Synthesized (Some tag) c (Some t)) =
     [Text (''function ('' @ join '', '' (map tag_name (listed (params (c_fields c)))) @ ''): ''),
      InlineCode (type_label t)]"
| "sample_format (Synthesized None c r) = [Text ''any'']"

definition sample_closure :: closure where
  "sample_closure =
     \<lparr>formatType = sample_format,
      hljsOptions = \<lparr>highlightAuto = False\<rparr>,
      hljs_language = (\<lambda>code. None)\<rparr>"

definition blank :: entry where
  "blank =
     \<lparr>name = None, kind = None, description = None, type = NoTypeProperty,
      params = Some [], properties = Some [], returns = Some [], throws = Some [],
      sees = Some [], examples = Some [], augments = Some [], c_context = None,
      version = None, since = None, copyright = None, author = None, license = None,
      deprecated = None\<rparr>"

definition no_members :: "comment members option" where
  "no_members = Some (Members (Some []) (Some []) (Some []) (Some []))"

definition leaf :: "string \<Rightarrow> comment" where
  "leaf nm = Comment (blank\<lparr>name := Some nm\<rparr>) no_members"

definition sample_note :: comment where
  "sample_note =
     Comment (blank\<lparr>name := Some ''Intro'', kind := Some ''note'',
                    description := Some [Paragraph [Text ''Read me first.'']]\<rparr>)
       (Some (Members (Some [leaf ''a'', leaf ''b'', leaf ''c''])
                      (Some [leaf ''hidden''])
                      (Some [])
                      (Some [])))"

definition sample_function :: comment where
  "sample_function =
     Comment
       (blank\<lparr>name := Some ''add'', kind := Some ''function'',
              description := Some [Paragraph [Text ''Adds.'']],
              params := Some [Tag ''x'' (Some (NameExpression ''Number'')) None None None],
              properties := Some [Tag ''p'' None None None None],
              returns := Some [Tag [] (Some (NameExpression ''String'')) None None None,
                               Tag [] (Some (NameExpression ''Other'')) None None None],
              throws := Some [Tag [] (Some (NameExpression ''Error'')) None None None],
              sees := Some [[Text ''sub'']],
              examples := Some [\<lparr>caption = None, ex_description = ''add(1)''\<rparr>],
              augments := Some [Tag ''Base'' None None None None],
              c_context := Some \<lparr>github = Some \<lparr>url = ''https://example.org/add.js'', path = ''add.js''\<rparr>,
                                  loc_start_line = 7\<rparr>,
              since := Some ''1.0'',
              deprecated := Some [Text ''old'']\<rparr>)
       (Some (Members (Some [leaf ''s''])
                      (Some [leaf ''i1'', leaf ''i2''])
                      (Some [leaf ''g''])
                      (Some [leaf ''n''])))"

definition sample_function_out :: "node list" where
  "sample_function_out =
     [ThematicBreak,
      Heading 2 [Link ''https://example.org/add.js'' None [Text ''add'']],
      Paragraph [Strong [Text ''Extends: '', Text ''Base'']],
      ListNode False [ListItem [Strong [Text ''See: '', Text ''sub'']]],
      Paragraph [Text ''Adds.''],
      Paragraph [Text ''Type: '', Text ''function (x): '', InlineCode ''String''],
      ListNode False
       [ListItem [Paragraph [InlineCode ''x'', Text '' '', Strong [InlineCode ''Number''], Text '' '']]],
      ListNode False
       [ListItem [Paragraph [InlineCode ''p'', Text '' '', Strong [Text ''any''], Text '' '']]],
      ListNode False
       [ListItem [Paragraph [Text ''Throws:'', Text '' '', Strong [InlineCode ''Error''], Text '' '']]],
      Text ''Examples:'',
      Code (Some ''javascript'') ''add(1)'',
      Strong [Text ''Meta''],
      ListNode False
       [ListItem [Paragraph [Strong [Text ''since''], Text '': '', Text ''1.0'']],
        ListItem [Paragraph [Strong [Text ''deprecated''], Text '': '', Root [Text ''old'']]]],
      ThematicBreak, Heading 3 [Text ''g''],
      ThematicBreak, Heading 3 [Text ''i1''],
      ThematicBreak, Heading 3 [Text ''i2''],
      ThematicBreak, Heading 3 [Text ''s''],
      ThematicBreak, Heading 3 [Text ''n'']]"



definition sample_meta :: entry where
  "sample_meta = blank\<lparr>deprecated := Some [Text ''use sub''], since := Some ''2.1''\<rparr>"

definition sample_nested :: comment where
  "sample_nested =
     Comment (blank\<lparr>name := Some ''A'', kind := Some ''class''\<rparr>)
       (Some (Members
          (Some [Comment (blank\<lparr>name := Some ''B''\<rparr>)
                   (Some (Members (Some [leaf ''C'']) (Some []) (Some []) (Some [])))])
          (Some []) (Some []) (Some [])))"

definition sample_forest :: "comment list" where
  "sample_forest = [sample_nested, sample_note, sample_function]"




definition sample_collaborators :: collaborators where
  "sample_collaborators =
     \<lparr>namespaceResolver = (\<lambda>cfg comments anchorFn namespace. anchorFn namespace),
      format_type = (\<lambda>link. sample_format),
      rerouteLinks = (\<lambda>link tree. tree),
      hljs_highlightAuto = (\<lambda>code. None),
      toc = (\<lambda>tree. tree),
      links = (\<lambda>tree. tree)\<rparr>"

definition sample_config :: config where
  "sample_config = \<lparr>markdownToc = True, hljs = None, noReferenceLinks = False\<rparr>"

section \<open>Reading the output\<close>

text \<open>What one argument of \<^verbatim>\<open>concat\<close> leaves in the array once \<^verbatim>\<open>.filter(Boolean)\<close> has run.\<close>

definition emitted :: "concat_arg \<Rightarrow> node list" where
  "emitted a = filter_Boolean (concat_js [] a)"

text \<open>The tag a metadata list item was built for.\<close>

fun item_tag :: "node \<Rightarrow> string option" where
  "item_tag (ListItem [Paragraph (Strong [Text tag] # rest)]) = Some tag"
| "item_tag n = None"

text \<open>
  The nodes a standard entry emits for itself, given what its fallible builders returned.
\<close>

abbreviation own_nodes ::
  "closure \<Rightarrow> nat \<Rightarrow> comment \<Rightarrow> concat_arg \<Rightarrow> concat_arg \<Rightarrow> concat_arg \<Rightarrow> concat_arg
   \<Rightarrow> concat_arg \<Rightarrow> concat_arg \<Rightarrow> node list" where
  "own_nodes cl d c a_augments a_sees a_params a_properties a_throws a_examples \<equiv>
     ThematicBreak # Heading d (heading_content (c_fields c))
     # emitted a_augments @ emitted a_sees @ description_children (description (c_fields c))
     @ emitted (typeSection cl c)
     @ emitted a_params @ emitted a_properties @ emitted a_throws @ emitted a_examples
     @ emitted (metaSection (c_fields c))"

section \<open>Facts about the plumbing\<close>

lemma filter_Boolean_append:
  "filter_Boolean (xs @ ys) = filter_Boolean xs @ filter_Boolean ys"
  by (induction xs rule: filter_Boolean.induct) simp_all

lemma filter_Boolean_map_N: "filter_Boolean (map N ns) = ns"
  by (induction ns) simp_all

lemma filter_Boolean_concat_js:
  "filter_Boolean (concat_js xs a) = filter_Boolean xs @ emitted a"
  by (cases a) (simp_all add: emitted_def filter_Boolean_append)

lemma emitted_simps:
  "emitted (One JFalse) = []"
  "emitted (One JUndefined) = []"
  "emitted (One (N n)) = [n]"
  "emitted (Arr xs) = filter_Boolean xs"
  by (simp_all add: emitted_def)

lemma bindE_simps:
  "bindE (Inl e) f = Inl e"
  "bindE (Inr x) f = f x"
  by (simp_all add: bindE_def)

lemma bindE_eq_Inr:
  "bindE m f = Inr y \<longleftrightarrow> (\<exists>x. m = Inr x \<and> f x = Inr y)"
  by (cases m) (simp_all add: bindE_def)

lemma reduceE_concat:
  "reduceE (\<lambda>memo x. bindE (g x) (\<lambda>r. Inr (memo @ r))) xs acc = Inr out
   \<longleftrightarrow> (\<exists>outs. list_all2 (\<lambda>x y. g x = Inr y) xs outs \<and> out = acc @ concat outs)"
proof (induction xs arbitrary: acc)
  case Nil
  then show ?case by auto
next
  case (Cons x xs)
  show ?case
  proof (cases "g x")
    case (Inl e)
    then show ?thesis by (simp add: bindE_simps list_all2_Cons1)
  next
    case (Inr r)
    then show ?thesis
      by (simp add: bindE_simps Cons.IH list_all2_Cons1) (metis append_assoc concat.simps(2))
  qed
qed

lemma children_eq_Inr:
  "children cl d xs = Inr out
   \<longleftrightarrow> (\<exists>outs. list_all2 (\<lambda>x y. generate cl d x = Inr y) xs outs \<and> out = concat outs)"
  unfolding children_def by (simp add: reduceE_concat)

lemma children_Nil: "children cl d [] = Inr []"
  by (simp add: children_def)

lemma emitted_nonempty_and:
  "children cl d xs = Inr k \<Longrightarrow> emitted (nonempty_and xs k) = k"
  by (cases xs) (simp_all add: nonempty_and_def emitted_simps filter_Boolean_map_N children_Nil)

lemma generate_note:
  assumes "kind e = Some ''note''"
  shows "generate cl d (Comment e ms) =
     bindE (members_group m_static ms) (\<lambda>st.
     bindE (children cl (d + 1) st) (\<lambda>kids.
       Inr (Heading d [Text (or_empty (name e))]
            # (case description e of None \<Rightarrow> [] | Some r \<Rightarrow> [Root r]) @ kids)))"
  using assms
  by (simp add: children_def[symmetric] filter_Boolean_concat_js emitted_simps emitted_nonempty_and
      split: option.split cong: bindE_cong)

lemma generate_standard:
  assumes "kind e \<noteq> Some ''note''"
  shows "generate cl d (Comment e ms) =
        bindE (augmentsLink e) (\<lambda>a_augments.
        bindE (seeLink e) (\<lambda>a_sees.
        bindE (paramSection cl e) (\<lambda>a_params.
        bindE (propertySection cl e) (\<lambda>a_properties.
        bindE (throwsSection cl e) (\<lambda>a_throws.
        bindE (examplesSection cl e) (\<lambda>a_examples.
        bindE (members_group m_global ms) (\<lambda>gl.
        bindE (children cl (d + 1) gl) (\<lambda>k_global.
        bindE (members_group m_instance ms) (\<lambda>ins.
        bindE (children cl (d + 1) ins) (\<lambda>k_instance.
        bindE (members_group m_static ms) (\<lambda>st.
        bindE (children cl (d + 1) st) (\<lambda>k_static.
        bindE (members_group m_inner ms) (\<lambda>inn.
        bindE (children cl (d + 1) inn) (\<lambda>k_inner.
        Inr (ThematicBreak # Heading d (heading_content e)
             # emitted a_augments @ emitted a_sees @ description_children (description e)
             @ emitted (typeSection cl (Comment e ms))
             @ emitted a_params @ emitted a_properties @ emitted a_throws @ emitted a_examples
             @ emitted (metaSection e)
             @ k_global @ k_instance @ k_static @ k_inner)))))))))))))))"
  using assms
  by (simp add: children_def[symmetric] filter_Boolean_concat_js emitted_simps emitted_nonempty_and
      filter_Boolean_map_N filter_Boolean_append del: typeSection.simps
      cong: bindE_cong)

declare generate.simps [simp del]

declare typeSection.simps [simp del]

lemma generate_standard_Inr:
  assumes "kind e \<noteq> Some ''note''"
    and "generate cl d (Comment e ms) = Inr out"
  obtains a1 a2 a3 a4 a5 a6 gl ins st inn kg ki ks kn where
      "augmentsLink e = Inr a1" "seeLink e = Inr a2" "paramSection cl e = Inr a3"
      "propertySection cl e = Inr a4" "throwsSection cl e = Inr a5"
      "examplesSection cl e = Inr a6"
      "ms = Some (Members (Some st) (Some ins) (Some gl) (Some inn))"
      "children cl (d + 1) gl = Inr kg" "children cl (d + 1) ins = Inr ki"
      "children cl (d + 1) st = Inr ks" "children cl (d + 1) inn = Inr kn"
      "out = own_nodes cl d (Comment e ms) a1 a2 a3 a4 a5 a6 @ kg @ ki @ ks @ kn"
proof -
  from assms(2) obtain a1 a2 a3 a4 a5 a6 gl kg ins ki st ks inn kn where
      secs: "augmentsLink e = Inr a1" "seeLink e = Inr a2" "paramSection cl e = Inr a3"
            "propertySection cl e = Inr a4" "throwsSection cl e = Inr a5"
            "examplesSection cl e = Inr a6"
    and grp: "members_group m_global ms = Inr gl" "members_group m_instance ms = Inr ins"
             "members_group m_static ms = Inr st" "members_group m_inner ms = Inr inn"
    and kids: "children cl (d + 1) gl = Inr kg" "children cl (d + 1) ins = Inr ki"
              "children cl (d + 1) st = Inr ks" "children cl (d + 1) inn = Inr kn"
    and out: "out = own_nodes cl d (Comment e ms) a1 a2 a3 a4 a5 a6 @ kg @ ki @ ks @ kn"
    unfolding generate_standard[OF assms(1)] bindE_eq_Inr by auto
  from grp have ms: "ms = Some (Members (Some st) (Some ins) (Some gl) (Some inn))"
    by (cases ms; cases "the ms")
       (auto simp: members_group_def deref_def bindE_def split: option.splits)
  show thesis
    using that[OF secs ms kids out] .
qed

section \<open>Facts about the builders and the walk\<close>

text \<open>
  The cases the typed model had to give a value to although no run of the source reaches
  them: \<^verbatim>\<open>paramList\<close> returns a list node whenever \<^verbatim>\<open>paramSection\<close> uses its result as an array
  element, and a tag that passed the truthiness filter has the kind of value \<^verbatim>\<open>metaContent\<close>
  expects.
\<close>

lemma paramList_nonempty:
  "ps \<noteq> [] \<Longrightarrow> paramList cl ps = One (N (ListNode False (map (paramItem cl) ps)))"
  by simp

lemma metaContent_present:
  "truthy_value (meta_prop e tag) \<Longrightarrow>
     metaContent e tag = (case meta_prop e tag of Some (Obj r) \<Rightarrow> Root r | Some (Str s) \<Rightarrow> Text s)"
  by (auto split: option.splits if_splits)

text \<open>
  Nested tags: an empty nested \<^verbatim>\<open>properties\<close> array adds nothing to a parameter item, but
  \<^verbatim>\<open>propertyList\<close> has no length test and gives a property item an empty nested list.
\<close>

lemma paramItem_empty_nested:
  "paramItem cl (Tag nm ty de df (Some [])) = paramItem cl (Tag nm ty de df None)"
  by simp

lemma propertyItem_empty_nested:
  "\<exists>p. propertyItem cl (Tag nm ty de df (Some [])) = ListItem [p, ListNode False []]"
  by simp

lemma section_empty:
  "augments e = Some [] \<Longrightarrow> augmentsLink e = Inr (One JFalse)"
  "sees e = Some [] \<Longrightarrow> seeLink e = Inr (One JFalse)"
  "params e = Some [] \<Longrightarrow> paramSection cl e = Inr (One JFalse)"
  "properties e = Some [] \<Longrightarrow> propertySection cl e = Inr (One JFalse)"
  "throws e = Some [] \<Longrightarrow> throwsSection cl e = Inr (One JFalse)"
  "examples e = Some [] \<Longrightarrow> examplesSection cl e = Inr (One JFalse)"
  by (simp_all add: augmentsLink_def seeLink_def paramSection_def propertySection_def
        throwsSection_def examplesSection_def deref_def bindE_simps)

lemma metaSection_empty:
  "filter (\<lambda>tag. truthy_value (meta_prop e tag)) meta_tags = [] \<Longrightarrow> metaSection e = One JFalse"
  by (simp add: metaSection_def del: meta_prop.simps)

lemma list_all2_exists:
  "(\<And>x. x \<in> set xs \<Longrightarrow> \<exists>y. P x y) \<Longrightarrow> \<exists>ys. list_all2 P xs ys"
proof (induction xs)
  case Nil
  then show ?case by simp
next
  case (Cons x xs)
  then obtain y ys where "P x y" "list_all2 P xs ys"
    by (meson list.set_intros)
  then show ?case
    by (intro exI[of _ "y # ys"]) simp
qed

lemma children_succeed:
  assumes "\<And>x. x \<in> set xs \<Longrightarrow> \<exists>y. generate cl d x = Inr y"
  shows "\<exists>k. children cl d xs = Inr k"
  using list_all2_exists[of xs "\<lambda>x y. generate cl d x = Inr y", OF assms]
  by (auto simp: children_eq_Inr)

lemma sections_succeed:
  "augments e \<noteq> None \<Longrightarrow> \<exists>a. augmentsLink e = Inr a"
  "sees e \<noteq> None \<Longrightarrow> \<exists>a. seeLink e = Inr a"
  "params e \<noteq> None \<Longrightarrow> \<exists>a. paramSection cl e = Inr a"
  "properties e \<noteq> None \<Longrightarrow> \<exists>a. propertySection cl e = Inr a"
  "throws e \<noteq> None \<Longrightarrow> \<exists>a. throwsSection cl e = Inr a"
  "examples e \<noteq> None \<Longrightarrow> \<exists>a. examplesSection cl e = Inr a"
  by (auto simp: augmentsLink_def seeLink_def paramSection_def propertySection_def
        throwsSection_def examplesSection_def deref_def bindE_simps)

lemma members_group_Some:
  "members_group m_static (Some (Members (Some st) i g n)) = Inr st"
  "members_group m_instance (Some (Members s (Some ins) g n)) = Inr ins"
  "members_group m_global (Some (Members s i (Some gl) n)) = Inr gl"
  "members_group m_inner (Some (Members s i g (Some inn))) = Inr inn"
  by (simp_all add: members_group_def deref_def bindE_simps)

lemma well_formed_generate:
  "well_formed c \<Longrightarrow> \<exists>out. generate cl d c = Inr out"
proof (induction c arbitrary: d rule: measure_induct_rule[where f = size])
  case (less c)
  obtain e ms where c: "c = Comment e ms" by (cases c)
  from less.prems c have "\<exists>st ins gl inn.
      ms = Some (Members (Some st) (Some ins) (Some gl) (Some inn))
      \<and> list_all well_formed (st @ ins @ gl @ inn)"
    by (auto simp: all_groups_Some split: option.splits)
  then obtain st ins gl inn where
      ms: "ms = Some (Members (Some st) (Some ins) (Some gl) (Some inn))"
    and kids_wf: "list_all well_formed (st @ ins @ gl @ inn)"
    by blast
  have seqs: "params e \<noteq> None" "properties e \<noteq> None" "throws e \<noteq> None" "sees e \<noteq> None"
      "examples e \<noteq> None" "augments e \<noteq> None"
    using less.prems c by simp_all
  have child: "\<exists>y. generate cl (d + 1) x = Inr y" if "x \<in> set (st @ ins @ gl @ inn)" for x
  proof -
    have "size x < size c"
      using that unfolding c ms by (auto dest: size_le_size_list)
    moreover have "well_formed x"
      using that kids_wf by (simp add: list_all_iff)
    ultimately show ?thesis
      by (rule less.IH)
  qed
  obtain kg ki ks kn where kids:
      "children cl (d + 1) gl = Inr kg" "children cl (d + 1) ins = Inr ki"
      "children cl (d + 1) st = Inr ks" "children cl (d + 1) inn = Inr kn"
    using children_succeed[of gl cl "d + 1"] children_succeed[of ins cl "d + 1"]
      children_succeed[of st cl "d + 1"] children_succeed[of inn cl "d + 1"] child
    by (metis Un_iff set_append)
  show ?case
  proof (cases "kind e = Some ''note''")
    case True
    then show ?thesis
      unfolding c ms using kids by (simp add: generate_note members_group_Some bindE_simps)
  next
    case False
    obtain a1 a2 a3 a4 a5 a6 where
        "augmentsLink e = Inr a1" "seeLink e = Inr a2" "paramSection cl e = Inr a3"
        "propertySection cl e = Inr a4" "throwsSection cl e = Inr a5"
        "examplesSection cl e = Inr a6"
      using sections_succeed[of e] seqs by metis
    then show ?thesis
      unfolding c ms using False kids
      by (simp add: generate_standard members_group_Some bindE_simps)
  qed
qed

lemma bindE_Inl:
  "(\<And>x. f x = Inl TypeError) \<Longrightarrow> bindE m f = Inl TypeError"
  by (cases m) (auto simp: bindE_def intro: error.exhaust)

lemma generate_missing_members:
  "generate cl d (Comment e None) = Inl TypeError"
proof (cases "kind e = Some ''note''")
  case True
  then show ?thesis
    by (simp add: generate_note members_group_def deref_def bindE_simps)
next
  case False
  have g: "members_group m_global None = Inl TypeError"
    by (simp add: members_group_def deref_def bindE_simps)
  show ?thesis
    unfolding generate_standard[OF False] g
    by (simp add: bindE_simps bindE_Inl)
qed

lemma not_Inr_Inl: "(\<And>y. m \<noteq> Inr y) \<Longrightarrow> m = Inl TypeError"
  by (cases m) (auto intro: error.exhaust)

lemma children_failing_entry:
  assumes "generate cl d bad = Inl TypeError"
  shows "children cl d (good @ bad # rest) = Inl TypeError"
proof (rule not_Inr_Inl)
  fix y
  show "children cl d (good @ bad # rest) \<noteq> Inr y"
    using assms by (auto simp: children_eq_Inr list_all2_append1 list_all2_Cons1)
qed



text \<open>The shape of what each builder leaves in the output.\<close>

lemma augmentsLink_shape:
  assumes "augmentsLink e = Inr a"
  shows "emitted a = [] \<or> (\<exists>s. emitted a = [Paragraph [Strong [Text ''Extends: '', Text s]]])"
  using assms
  by (auto simp: augmentsLink_def deref_def bindE_def emitted_simps split: option.splits if_splits)

lemma seeLink_shape:
  assumes "seeLink e = Inr a"
  shows "emitted a = [] \<or> (\<exists>ss. sees e = Some ss
           \<and> emitted a = [ListNode False (map (\<lambda>see. ListItem [Strong (Text ''See: '' # see)]) ss)])"
  using assms
  by (auto simp: seeLink_def deref_def bindE_def emitted_simps split: option.splits if_splits)

lemma paramSection_shape:
  assumes "paramSection cl e = Inr a"
  shows "emitted a = [] \<or> (\<exists>ps. params e = Some ps
           \<and> emitted a = [ListNode False (map (paramItem cl) ps)])"
  using assms
  by (auto simp: paramSection_def deref_def bindE_def emitted_simps split: option.splits if_splits)

lemma propertySection_shape:
  assumes "propertySection cl e = Inr a"
  shows "emitted a = [] \<or> (\<exists>ps. properties e = Some ps
           \<and> emitted a = [ListNode False (map (propertyItem cl) ps)])"
  using assms
  by (auto simp: propertySection_def deref_def bindE_def emitted_simps split: option.splits if_splits)

lemma throwsSection_shape:
  assumes "throwsSection cl e = Inr a"
  shows "emitted a = [] \<or> (\<exists>ts. throws e = Some ts
           \<and> emitted a = [ListNode False (map (\<lambda>r. ListItem [Paragraph
                   ([Text ''Throws:'', Text '' '',
                     Strong (formatType cl (TypeArg (tag_type r))),
                     Text '' ''] @ description_children (tag_description r))]) ts)])"
  using assms
  by (auto simp: throwsSection_def deref_def bindE_def emitted_simps split: option.splits if_splits)

lemma examples_foldl:
  "filter_Boolean (foldl (\<lambda>memo ex.
       memo @ (case caption ex of None \<Rightarrow> [] | Some c \<Rightarrow> [N (Paragraph [Emphasis c])])
         @ [N (Code (lang ex) (ex_description ex))]) acc exs)
   = filter_Boolean acc
     @ concat (map (\<lambda>ex. (case caption ex of Some c \<Rightarrow> [Paragraph [Emphasis c]] | None \<Rightarrow> [])
                         @ [Code (lang ex) (ex_description ex)]) exs)"
  by (induction exs arbitrary: acc) (auto simp: filter_Boolean_append split: option.splits)

lemma examplesSection_shape:
  assumes "examplesSection cl e = Inr a"
  shows "emitted a = [] \<or> (\<exists>exs. examples e = Some exs
           \<and> emitted a = Text ''Examples:'' # concat (map (example_nodes cl) exs))"
  using assms
  by (auto simp: examplesSection_def deref_def bindE_def emitted_simps Let_def
        examples_foldl example_nodes_def[abs_def]
      split: option.splits if_splits)

lemma metaSection_shape:
  "emitted (metaSection e) = []
   \<or> (\<exists>tags. emitted (metaSection e) =
         [Strong [Text ''Meta''],
          ListNode False (map (\<lambda>tag. ListItem [Paragraph
             [Strong [Text tag], Text '': '', metaContent e tag]]) tags)])"
  by (auto simp: metaSection_def emitted_simps Let_def simp del: meta_prop.simps metaContent.simps)

lemma typeSection_shape:
  "emitted (typeSection cl c) = []
   \<or> (\<exists>arg. emitted (typeSection cl c) = [Paragraph (Text ''Type: '' # formatType cl arg)])"
  by (cases c) (auto simp: typeSection.simps emitted_simps Let_def split: type_property.splits)





lemma clean_simps:
  "clean []"
  "clean (n # ns) \<longleftrightarrow> \<not> contains_section n \<and> clean ns"
  "clean (xs @ ys) \<longleftrightarrow> clean xs \<and> clean ys"
  by (auto simp: clean_def)

lemma clean_concat: "clean (concat xss) \<longleftrightarrow> list_all clean xss"
  by (induction xss) (simp_all add: clean_simps)

lemma clean_iff: "clean ns \<longleftrightarrow> (\<forall>n \<in> set ns. \<not> contains_section n)"
  by (simp add: clean_def list_ex_iff)

lemma paramList_clean:
  shows "\<forall>arg. clean (formatType cl arg) \<Longrightarrow> list_all clean_tag ps
           \<Longrightarrow> clean (emitted (paramList cl ps))"
    and "\<forall>arg. clean (formatType cl arg) \<Longrightarrow> clean_tag t
           \<Longrightarrow> \<not> contains_section (paramItem cl t)"
proof (induction cl ps and cl t rule: paramList_paramItem.induct)
  case (1 cl ps)
  then show ?case
    by (auto simp: emitted_simps clean_iff list_all_iff list_ex_iff)
next
  case (2 cl nm ty de df pr)
  have f: "\<not> contains_section n" if "n \<in> set (formatType cl a)" for a n
    using "2.prems"(1) that unfolding clean_iff by blast
  from 2 show ?case
    by (auto simp: filter_Boolean_concat_js filter_Boolean_append filter_Boolean_map_N
          emitted_simps clean_iff list_ex_iff f split: option.splits)
qed

lemma propertyList_clean:
  shows "\<forall>arg. clean (formatType cl arg) \<Longrightarrow> list_all clean_tag ps
           \<Longrightarrow> \<not> contains_section (propertyList cl ps)"
    and "\<forall>arg. clean (formatType cl arg) \<Longrightarrow> clean_tag t
           \<Longrightarrow> \<not> contains_section (propertyItem cl t)"
proof (induction cl ps and cl t rule: propertyList_propertyItem.induct)
  case (1 cl ps)
  then show ?case
    by (auto simp: list_all_iff list_ex_iff)
next
  case (2 cl nm ty de df pr)
  have f: "\<not> contains_section n" if "n \<in> set (formatType cl a)" for a n
    using "2.prems"(1) that unfolding clean_iff by blast
  from 2 show ?case
    by (auto simp: filter_Boolean_append filter_Boolean_map_N
          clean_iff list_ex_iff f split: option.splits)
qed


lemma clean_tag_description: "clean_tag t \<Longrightarrow> clean (description_children (tag_description t))"
  by (cases t) simp

lemma metaContent_clean:
  assumes "clean_entry e"
  shows "\<not> contains_section (metaContent e tag)"
  using assms
  by (auto simp: clean_entry_def clean_iff list_ex_iff split: option.splits meta_value.splits)

lemma sections_clean:
  assumes fmt: "\<forall>arg. clean (formatType cl arg)" and ce: "clean_entry e"
  shows "augmentsLink e = Inr a1 \<Longrightarrow> clean (emitted a1)"
    and "seeLink e = Inr a2 \<Longrightarrow> clean (emitted a2)"
    and "paramSection cl e = Inr a3 \<Longrightarrow> clean (emitted a3)"
    and "propertySection cl e = Inr a4 \<Longrightarrow> clean (emitted a4)"
    and "throwsSection cl e = Inr a5 \<Longrightarrow> clean (emitted a5)"
    and "examplesSection cl e = Inr a6 \<Longrightarrow> clean (emitted a6)"
    and "clean (emitted (metaSection e))"
    and "clean (emitted (typeSection cl c))"
    and "clean [Heading d (heading_content e)]"
proof -
  have f: "\<not> contains_section n" if "n \<in> set (formatType cl a)" for a n
    using fmt that unfolding clean_iff by blast
  show "augmentsLink e = Inr a1 \<Longrightarrow> clean (emitted a1)"
    using augmentsLink_shape[of e a1] by (auto simp: clean_simps)
  show "seeLink e = Inr a2 \<Longrightarrow> clean (emitted a2)"
    using seeLink_shape[of e a2] ce
    by (auto simp: clean_simps clean_entry_def list_all_iff list_ex_iff clean_iff)
  show "paramSection cl e = Inr a3 \<Longrightarrow> clean (emitted a3)"
    using paramSection_shape[of cl e a3] ce paramList_clean(2)[of cl] fmt
    by (auto simp: clean_simps clean_entry_def list_all_iff list_ex_iff)
  show "propertySection cl e = Inr a4 \<Longrightarrow> clean (emitted a4)"
    using propertySection_shape[of cl e a4] ce propertyList_clean(2)[of cl] fmt
    by (auto simp: clean_simps clean_entry_def list_all_iff list_ex_iff)
  have td: "\<not> contains_section n"
    if "clean_tag t" "n \<in> set (description_children (tag_description t))" for t n
    using clean_tag_description[OF that(1)] that(2) unfolding clean_iff by blast
  show "throwsSection cl e = Inr a5 \<Longrightarrow> clean (emitted a5)"
    using throwsSection_shape[of cl e a5] ce
    by (auto simp: clean_simps clean_entry_def list_all_iff list_ex_iff f) (blast dest: td)
  show "examplesSection cl e = Inr a6 \<Longrightarrow> clean (emitted a6)"
    using examplesSection_shape[of cl e a6] ce
    by (auto simp: clean_simps clean_concat clean_entry_def list_all_iff list_ex_iff
          example_nodes_def clean_iff split: option.splits)
       (metis description_children.simps(2))
  show "clean (emitted (metaSection e))"
    using metaSection_shape[of e] metaContent_clean[OF ce]
    by (auto simp: clean_simps list_ex_iff simp del: metaContent.simps)
  show "clean (emitted (typeSection cl c))"
    using typeSection_shape[of cl c] by (auto simp: clean_simps list_ex_iff f)
  show "clean [Heading d (heading_content e)]"
    by (simp add: clean_simps heading_content_def Let_def split: option.splits)
qed

lemma children_clean:
  assumes "children cl d xs = Inr k"
    and "\<And>x y. x \<in> set xs \<Longrightarrow> generate cl d x = Inr y \<Longrightarrow> clean y"
  shows "clean k"
proof -
  from assms(1) obtain outs where
      outs: "list_all2 (\<lambda>x y. generate cl d x = Inr y) xs outs" and k: "k = concat outs"
    by (auto simp: children_eq_Inr)
  from outs assms(2) have "list_all clean outs"
    by (induction xs outs rule: list_all2_induct) auto
  then show ?thesis
    by (simp add: k clean_concat)
qed

lemma clean_comment_visited:
  "clean_comment c \<Longrightarrow> x \<in> set (visited c) \<Longrightarrow> clean_comment x"
  by (subst (asm) clean_comment.simps) (simp add: list_all_iff)

lemma clean_comment_entry: "clean_comment (Comment e ms) \<Longrightarrow> clean_entry e"
  by (subst (asm) clean_comment.simps) simp

lemma generate_clean:
  assumes fmt: "\<forall>arg. clean (formatType cl arg)"
  shows "generate cl d c = Inr out \<Longrightarrow> clean_comment c \<Longrightarrow> clean out"
proof (induction c arbitrary: d out rule: measure_induct_rule[where f = size])
  case (less c)
  obtain e ms where c: "c = Comment e ms" by (cases c)
  have ce: "clean_entry e"
    using less.prems(2) unfolding c by (rule clean_comment_entry)
  have IH: "clean y" if "x \<in> set (visited c)" "generate cl (d + 1) x = Inr y" for x y
  proof -
    have "size x < size c"
      using that(1) by (rule visited_size)
    moreover have "clean_comment x"
      using less.prems(2) that(1) by (rule clean_comment_visited)
    ultimately show ?thesis
      using that(2) less.IH by blast
  qed
  show ?case
  proof (cases "kind e = Some ''note''")
    case True
    from less.prems(1) obtain st kids where
        st: "members_group m_static ms = Inr st"
      and kids: "children cl (d + 1) st = Inr kids"
      and out: "out = Heading d [Text (or_empty (name e))]
                 # (case description e of None \<Rightarrow> [] | Some r \<Rightarrow> [Root r]) @ kids"
      unfolding c by (auto simp: generate_note[OF True] bindE_eq_Inr)
    from st have v: "visited c = st"
      unfolding c using True
      by (cases ms; cases "the ms")
         (auto simp: members_group_def deref_def bindE_def split: option.splits)
    have "clean kids"
      using kids IH unfolding v by (rule children_clean)
    moreover have "clean (case description e of None \<Rightarrow> [] | Some r \<Rightarrow> [Root r])"
      using ce by (cases "description e") (simp_all add: clean_entry_def clean_def)
    ultimately show ?thesis
      by (simp add: out clean_simps)
  next
    case False
    from less.prems(1) False obtain a1 a2 a3 a4 a5 a6 gl ins st inn kg ki ks kn where
        secs: "augmentsLink e = Inr a1" "seeLink e = Inr a2" "paramSection cl e = Inr a3"
            "propertySection cl e = Inr a4" "throwsSection cl e = Inr a5"
            "examplesSection cl e = Inr a6"
      and ms: "ms = Some (Members (Some st) (Some ins) (Some gl) (Some inn))"
      and kids: "children cl (d + 1) gl = Inr kg" "children cl (d + 1) ins = Inr ki"
              "children cl (d + 1) st = Inr ks" "children cl (d + 1) inn = Inr kn"
      and out: "out = own_nodes cl d (Comment e ms) a1 a2 a3 a4 a5 a6 @ kg @ ki @ ks @ kn"
      unfolding c by (elim generate_standard_Inr)
    have v: "visited c = gl @ ins @ st @ inn"
      unfolding c ms using False by simp
    have k: "clean kg" "clean ki" "clean ks" "clean kn"
      by (rule children_clean[OF kids(1)], rule IH, simp_all add: v,
          rule children_clean[OF kids(2)], rule IH, simp_all add: v,
          rule children_clean[OF kids(3)], rule IH, simp_all add: v,
          rule children_clean[OF kids(4)], rule IH, simp_all add: v)
    have desc: "clean (description_children (description e))"
      using ce by (simp add: clean_entry_def)
    note s = sections_clean[OF fmt ce]
    have own: "clean (own_nodes cl d (Comment e ms) a1 a2 a3 a4 a5 a6)"
      using s(1)[OF secs(1)] s(2)[OF secs(2)] s(3)[OF secs(3)] s(4)[OF secs(4)]
        s(5)[OF secs(5)] s(6)[OF secs(6)] s(7) s(8)[of "Comment e ms"] s(9)[of d] desc
      by (simp only: clean_simps comment.sel) simp
    show ?thesis
      unfolding out using own k by (simp only: clean_simps) simp
  qed
qed

lemma leaf_generate: "generate sample_closure 2 (leaf ''a'') = Inr [ThematicBreak, Heading 2 [Text ''a'']]"
  by code_simp

lemma returnsSection_is_section:
  assumes "returns e = Some (r # rs)"
  shows "\<exists>ps. returnsSection cl e = Inr (Arr (map N ps)) \<and> ps \<noteq> []
           \<and> list_all is_section_paragraph ps"
  using assms
  by (auto simp: returnsSection_def deref_def bindE_simps list_all_iff
        intro!: exI[of _ "map (\<lambda>r. Paragraph
                   ([Text ''Returns:'', Text '' '',
                     Strong (formatType cl (TypeArg (tag_type r))),
                     Text '' ''] @ description_children (tag_description r))) (r # rs)"])

lemma githubLink_is_section:
  assumes "c_context e = Some ctx" and "github ctx = Some gh"
  shows "\<exists>p. githubLink e = One (N p) \<and> is_section_paragraph p"
  using assms by (simp add: githubLink_def)

lemma sample_format_clean: "\<not> list_ex contains_section (sample_format arg)"
  by (cases arg rule: sample_format.cases) simp_all

section \<open>The sample inputs evaluated\<close>

lemma sample_function_generate:
  "generate sample_closure 2 sample_function = Inr sample_function_out"
  by code_simp

lemma sample_function_standard: "kind (c_fields sample_function) \<noteq> Some ''note''"
  by (simp add: sample_function_def blank_def)

lemma sample_function_collapse:
  "Comment (c_fields sample_function) (c_members sample_function) = sample_function"
  by simp

lemma sample_note_out:
  "generate sample_closure 2 sample_note =
     Inr [Heading 2 [Text ''Intro''], Root [Paragraph [Text ''Read me first.'']],
          ThematicBreak, Heading 3 [Text ''a''],
          ThematicBreak, Heading 3 [Text ''b''],
          ThematicBreak, Heading 3 [Text ''c'']]"
  by code_simp

section \<open>The anchors of colliding namespaces\<close>

lemma slug_fresh: "slug Map.empty v = Some (slugger v, [slugger v \<mapsto> 0])"
  by (simp add: slug_def slug_loop.simps)

text \<open>
  One slugger shared by two calls does disambiguate: the second namespace with the same
  slug gets the suffix \<^verbatim>\<open>-1\<close>.
\<close>

lemma slug_shared_suffix:
  "slug [slugger v \<mapsto> 0] v = Some (slugger v @ ''-1'', [slugger v \<mapsto> 1, slugger v @ ''-1'' \<mapsto> 0])"
proof -
  have d: "digits (Suc 0) = ''1''" by code_simp
  show ?thesis
    by (simp add: slug_def slug_loop.simps[of "[slugger v \<mapsto> 0]"]
          slug_loop.simps[of "[slugger v \<mapsto> Suc 0]"] d del: digits.simps)
qed

text \<open>
  C1 (as amended). The anchor function creates a fresh slugger on every call, so it is
  the pure function that prefixes the slug of the namespace with \<^verbatim>\<open>#\<close>: two namespaces
  get the same anchor exactly when they have the same slug, and no suffix is ever added.
\<close>

theorem anchor_is_hash_slug:
  "anchor namespace = Some (''#'' @ slugger namespace)
   \<and> (anchor a = anchor b \<longleftrightarrow> slugger a = slugger b)"
  by (simp add: anchor_def slug_fresh)

theorem anchor_is_hash_slug_witness:
  "anchor ''Foo Bar'' = Some ''#foo-bar'' \<and> anchor ''Foo Bar'' = anchor ''foo-bar''"
proof -
  have s1: "slugger ''Foo Bar'' = ''foo-bar''" by code_simp
  have s2: "slugger ''foo-bar'' = ''foo-bar''" by code_simp
  show ?thesis
    using anchor_is_hash_slug [of "''Foo Bar''" "''Foo Bar''" "''foo-bar''"]
    unfolding s1 s2 by auto
qed

text \<open>
  C1 (as stated) fails: the distinct namespaces \<^verbatim>\<open>Foo Bar\<close> and \<^verbatim>\<open>foo-bar\<close> slug to the
  same text and are given the same anchor.
\<close>

theorem anchor_collision_counterexample:
  "''Foo Bar'' \<noteq> ''foo-bar''
   \<and> slugger ''Foo Bar'' = slugger ''foo-bar''
   \<and> anchor ''Foo Bar'' = anchor ''foo-bar''"
proof -
  have s1: "slugger ''Foo Bar'' = ''foo-bar''" by code_simp
  have s2: "slugger ''foo-bar'' = ''foo-bar''" by code_simp
  show ?thesis
    by (simp add: anchor_def slug_fresh s1 s2)
qed

section \<open>Heading depth\<close>



section \<open>Section order\<close>

text \<open>
  C3. A standard (non-note) entry that is generated emits, in this order: the thematic
  break, the heading (its text wrapped in a link to the source when github origin info is
  present), what \<^verbatim>\<open>augmentsLink\<close> left, what \<^verbatim>\<open>seeLink\<close> left, the children of the
  description, then the type, parameters, properties, thrown-errors, examples and metadata
  sections, and only then the nodes of its members.
\<close>

theorem section_order:
  assumes "kind e \<noteq> Some ''note''"
    and "generate cl d (Comment e ms) = Inr out"
  shows "\<exists>a_augments a_sees a_params a_properties a_throws a_examples kids.
           augmentsLink e = Inr a_augments
         \<and> seeLink e = Inr a_sees
         \<and> paramSection cl e = Inr a_params
         \<and> propertySection cl e = Inr a_properties
         \<and> throwsSection cl e = Inr a_throws
         \<and> examplesSection cl e = Inr a_examples
         \<and> out = [ThematicBreak]
               @ [Heading d (case Option.bind (c_context e) github of
                               None \<Rightarrow> [Text (or_empty (name e))]
                             | Some gh \<Rightarrow> [Link (url gh) None [Text (or_empty (name e))]])]
               @ emitted a_augments
               @ emitted a_sees
               @ description_children (description e)
               @ emitted (typeSection cl (Comment e ms))
               @ emitted a_params
               @ emitted a_properties
               @ emitted a_throws
               @ emitted a_examples
               @ emitted (metaSection e)
               @ kids"
proof -
  have h: "heading_content e =
             (case Option.bind (c_context e) github of
                None \<Rightarrow> [Text (or_empty (name e))]
              | Some gh \<Rightarrow> [Link (url gh) None [Text (or_empty (name e))]])"
    by (cases "c_context e") (simp_all add: heading_content_def Let_def split: option.splits)
  from assms obtain a1 a2 a3 a4 a5 a6 gl ins st inn kg ki ks kn where
      secs: "augmentsLink e = Inr a1" "seeLink e = Inr a2" "paramSection cl e = Inr a3"
            "propertySection cl e = Inr a4" "throwsSection cl e = Inr a5"
            "examplesSection cl e = Inr a6"
    and out: "out = own_nodes cl d (Comment e ms) a1 a2 a3 a4 a5 a6 @ kg @ ki @ ks @ kn"
    by (elim generate_standard_Inr)
  have "out = [ThematicBreak]
               @ [Heading d (case Option.bind (c_context e) github of
                               None \<Rightarrow> [Text (or_empty (name e))]
                             | Some gh \<Rightarrow> [Link (url gh) None [Text (or_empty (name e))]])]
               @ emitted a1 @ emitted a2 @ description_children (description e)
               @ emitted (typeSection cl (Comment e ms))
               @ emitted a3 @ emitted a4 @ emitted a5 @ emitted a6
               @ emitted (metaSection e)
               @ (kg @ ki @ ks @ kn)"
    using out by (simp add: h)
  with secs show ?thesis
    by blast
qed

theorem section_order_witness:
  "generate sample_closure 2 sample_function = Inr sample_function_out
   \<and> (\<exists>a_augments a_sees a_params a_properties a_throws a_examples kids.
           augmentsLink (c_fields sample_function) = Inr a_augments
         \<and> seeLink (c_fields sample_function) = Inr a_sees
         \<and> paramSection sample_closure (c_fields sample_function) = Inr a_params
         \<and> propertySection sample_closure (c_fields sample_function) = Inr a_properties
         \<and> throwsSection sample_closure (c_fields sample_function) = Inr a_throws
         \<and> examplesSection sample_closure (c_fields sample_function) = Inr a_examples
         \<and> sample_function_out = [ThematicBreak]
               @ [Heading 2 [Link ''https://example.org/add.js'' None [Text ''add'']]]
               @ emitted a_augments
               @ emitted a_sees
               @ description_children (description (c_fields sample_function))
               @ emitted (typeSection sample_closure sample_function)
               @ emitted a_params
               @ emitted a_properties
               @ emitted a_throws
               @ emitted a_examples
               @ emitted (metaSection (c_fields sample_function))
               @ kids)"
proof -
  have h: "(case Option.bind (c_context (c_fields sample_function)) github of
              None \<Rightarrow> [Text (or_empty (name (c_fields sample_function)))]
            | Some gh \<Rightarrow> [Link (url gh) None [Text (or_empty (name (c_fields sample_function)))]])
           = [Link ''https://example.org/add.js'' None [Text ''add'']]"
    by (simp add: sample_function_def blank_def)
  show ?thesis
    using section_order [OF sample_function_standard, of sample_closure 2
        "c_members sample_function" sample_function_out]
      sample_function_generate
    unfolding sample_function_collapse h by simp
qed

section \<open>Member groups\<close>

text \<open>
  C4. A standard entry at depth \<open>d\<close> is generated exactly when its six fallible builders
  return, its four member groups are there and every member is generated at depth
  \<open>d + 1\<close>; its output is then its own nodes followed by the output of the groups in the
  order global, instance, static, inner, and inside a group the chunks follow the input
  sequence (\<open>list_all2\<close> pairs the i-th child with the i-th chunk).
\<close>

theorem member_group_order:
  assumes "kind e \<noteq> Some ''note''"
  shows "generate cl d (Comment e ms) = Inr out \<longleftrightarrow>
         (\<exists>st ins gl inn a_augments a_sees a_params a_properties a_throws a_examples
             o_global o_instance o_static o_inner.
             ms = Some (Members (Some st) (Some ins) (Some gl) (Some inn))
           \<and> augmentsLink e = Inr a_augments
           \<and> seeLink e = Inr a_sees
           \<and> paramSection cl e = Inr a_params
           \<and> propertySection cl e = Inr a_properties
           \<and> throwsSection cl e = Inr a_throws
           \<and> examplesSection cl e = Inr a_examples
           \<and> list_all2 (\<lambda>c y. generate cl (d + 1) c = Inr y) gl o_global
           \<and> list_all2 (\<lambda>c y. generate cl (d + 1) c = Inr y) ins o_instance
           \<and> list_all2 (\<lambda>c y. generate cl (d + 1) c = Inr y) st o_static
           \<and> list_all2 (\<lambda>c y. generate cl (d + 1) c = Inr y) inn o_inner
           \<and> out = own_nodes cl d (Comment e ms)
                     a_augments a_sees a_params a_properties a_throws a_examples
                   @ concat o_global @ concat o_instance @ concat o_static @ concat o_inner)"
    (is "?run \<longleftrightarrow> ?layout")
proof
  assume ?run
  with assms obtain a1 a2 a3 a4 a5 a6 gl ins st inn kg ki ks kn where
      secs: "augmentsLink e = Inr a1" "seeLink e = Inr a2" "paramSection cl e = Inr a3"
            "propertySection cl e = Inr a4" "throwsSection cl e = Inr a5"
            "examplesSection cl e = Inr a6"
    and ms: "ms = Some (Members (Some st) (Some ins) (Some gl) (Some inn))"
    and kids: "children cl (d + 1) gl = Inr kg" "children cl (d + 1) ins = Inr ki"
              "children cl (d + 1) st = Inr ks" "children cl (d + 1) inn = Inr kn"
    and out: "out = own_nodes cl d (Comment e ms) a1 a2 a3 a4 a5 a6 @ kg @ ki @ ks @ kn"
    by (elim generate_standard_Inr)
  from kids obtain og oi os oin where
      chunks: "list_all2 (\<lambda>c y. generate cl (d + 1) c = Inr y) gl og"
      "list_all2 (\<lambda>c y. generate cl (d + 1) c = Inr y) ins oi"
      "list_all2 (\<lambda>c y. generate cl (d + 1) c = Inr y) st os"
      "list_all2 (\<lambda>c y. generate cl (d + 1) c = Inr y) inn oin"
    and cat: "kg = concat og" "ki = concat oi" "ks = concat os" "kn = concat oin"
    unfolding children_eq_Inr by blast
  have "out = own_nodes cl d (Comment e ms) a1 a2 a3 a4 a5 a6
              @ concat og @ concat oi @ concat os @ concat oin"
    using out cat by simp
  with ms secs chunks show ?layout
    by blast
next
  assume ?layout
  then obtain st ins gl inn a1 a2 a3 a4 a5 a6 og oi os oin where
      ms: "ms = Some (Members (Some st) (Some ins) (Some gl) (Some inn))"
    and secs: "augmentsLink e = Inr a1" "seeLink e = Inr a2" "paramSection cl e = Inr a3"
            "propertySection cl e = Inr a4" "throwsSection cl e = Inr a5"
            "examplesSection cl e = Inr a6"
    and chunks: "list_all2 (\<lambda>c y. generate cl (d + 1) c = Inr y) gl og"
      "list_all2 (\<lambda>c y. generate cl (d + 1) c = Inr y) ins oi"
      "list_all2 (\<lambda>c y. generate cl (d + 1) c = Inr y) st os"
      "list_all2 (\<lambda>c y. generate cl (d + 1) c = Inr y) inn oin"
    and out: "out = own_nodes cl d (Comment e ms) a1 a2 a3 a4 a5 a6
              @ concat og @ concat oi @ concat os @ concat oin"
    by blast
  have kids: "children cl (d + 1) gl = Inr (concat og)" "children cl (d + 1) ins = Inr (concat oi)"
      "children cl (d + 1) st = Inr (concat os)" "children cl (d + 1) inn = Inr (concat oin)"
    using chunks unfolding children_eq_Inr by blast+
  show ?run
    unfolding generate_standard[OF assms] ms secs members_group_Some bindE_simps kids out ms
    by simp
qed

theorem member_group_order_witness:
  "generate sample_closure 2 sample_function = Inr sample_function_out
   \<and> (\<exists>own o_global o_instance o_static o_inner.
         list_all2 (\<lambda>c y. generate sample_closure (2 + 1) c = Inr y) [leaf ''g''] o_global
       \<and> list_all2 (\<lambda>c y. generate sample_closure (2 + 1) c = Inr y) [leaf ''i1'', leaf ''i2''] o_instance
       \<and> list_all2 (\<lambda>c y. generate sample_closure (2 + 1) c = Inr y) [leaf ''s''] o_static
       \<and> list_all2 (\<lambda>c y. generate sample_closure (2 + 1) c = Inr y) [leaf ''n''] o_inner
       \<and> sample_function_out
           = own @ concat o_global @ concat o_instance @ concat o_static @ concat o_inner)"
proof -
  have m: "c_members sample_function =
      Some (Members (Some [leaf ''s'']) (Some [leaf ''i1'', leaf ''i2'']) (Some [leaf ''g'']) (Some [leaf ''n'']))"
    by (simp add: sample_function_def)
  have g: "generate sample_closure 2 (Comment (c_fields sample_function) (c_members sample_function))
           = Inr sample_function_out"
    using sample_function_generate by simp
  from g member_group_order [OF sample_function_standard, of sample_closure 2
      "c_members sample_function" sample_function_out]
  obtain st ins gl inn a1 a2 a3 a4 a5 a6 o_global o_instance o_static o_inner where
      ms: "c_members sample_function = Some (Members (Some st) (Some ins) (Some gl) (Some inn))"
    and kids: "list_all2 (\<lambda>c y. generate sample_closure (2 + 1) c = Inr y) gl o_global"
        "list_all2 (\<lambda>c y. generate sample_closure (2 + 1) c = Inr y) ins o_instance"
        "list_all2 (\<lambda>c y. generate sample_closure (2 + 1) c = Inr y) st o_static"
        "list_all2 (\<lambda>c y. generate sample_closure (2 + 1) c = Inr y) inn o_inner"
    and out: "sample_function_out
               = own_nodes sample_closure 2 (Comment (c_fields sample_function) (c_members sample_function))
                   a1 a2 a3 a4 a5 a6
                 @ concat o_global @ concat o_instance @ concat o_static @ concat o_inner"
    by blast
  from ms have "st = [leaf ''s'']" "ins = [leaf ''i1'', leaf ''i2'']" "gl = [leaf ''g'']"
      "inn = [leaf ''n'']"
    unfolding m by simp_all
  with kids out sample_function_generate show ?thesis
    by blast
qed

section \<open>Notes\<close>

text \<open>
  C5. An entry of kind \<^verbatim>\<open>note\<close> at depth \<open>d\<close> is generated exactly when its static group
  is there and every static member is generated at depth \<open>d + 1\<close>; its output is then its
  heading, its description (the description object itself, when there is one) and the
  output of the static members, nothing else. The other three member groups are not read
  at all: replacing them by anything, even by missing groups, changes nothing.
\<close>

theorem note_layout:
  assumes "kind e = Some ''note''"
  shows "(generate cl d (Comment e ms) = Inr out \<longleftrightarrow>
           (\<exists>st i g n outs.
               ms = Some (Members (Some st) i g n)
             \<and> list_all2 (\<lambda>c y. generate cl (d + 1) c = Inr y) st outs
             \<and> out = Heading d [Text (or_empty (name e))]
                     # (case description e of None \<Rightarrow> [] | Some r \<Rightarrow> [Root r]) @ concat outs))
       \<and> (\<forall>st i g n i' g' n'.
             generate cl d (Comment e (Some (Members st i g n)))
             = generate cl d (Comment e (Some (Members st i' g' n'))))"
proof (intro conjI allI iffI)
  assume "generate cl d (Comment e ms) = Inr out"
  with assms obtain st kids where
      st: "members_group m_static ms = Inr st"
    and kids: "children cl (d + 1) st = Inr kids"
    and out: "out = Heading d [Text (or_empty (name e))]
                 # (case description e of None \<Rightarrow> [] | Some r \<Rightarrow> [Root r]) @ kids"
    by (auto simp: generate_note bindE_eq_Inr)
  from st obtain i g n where ms: "ms = Some (Members (Some st) i g n)"
    by (cases ms; cases "the ms")
       (auto simp: members_group_def deref_def bindE_def split: option.splits)
  from kids obtain outs where
      outs: "list_all2 (\<lambda>c y. generate cl (d + 1) c = Inr y) st outs" "kids = concat outs"
    by (auto simp: children_eq_Inr)
  show "\<exists>st i g n outs.
               ms = Some (Members (Some st) i g n)
             \<and> list_all2 (\<lambda>c y. generate cl (d + 1) c = Inr y) st outs
             \<and> out = Heading d [Text (or_empty (name e))]
                     # (case description e of None \<Rightarrow> [] | Some r \<Rightarrow> [Root r]) @ concat outs"
    using ms outs out by blast
next
  assume "\<exists>st i g n outs.
               ms = Some (Members (Some st) i g n)
             \<and> list_all2 (\<lambda>c y. generate cl (d + 1) c = Inr y) st outs
             \<and> out = Heading d [Text (or_empty (name e))]
                     # (case description e of None \<Rightarrow> [] | Some r \<Rightarrow> [Root r]) @ concat outs"
  then obtain st i g n outs where
      ms: "ms = Some (Members (Some st) i g n)"
    and outs: "list_all2 (\<lambda>c y. generate cl (d + 1) c = Inr y) st outs"
    and out: "out = Heading d [Text (or_empty (name e))]
                     # (case description e of None \<Rightarrow> [] | Some r \<Rightarrow> [Root r]) @ concat outs"
    by blast
  have kids: "children cl (d + 1) st = Inr (concat outs)"
    using outs unfolding children_eq_Inr by blast
  show "generate cl d (Comment e ms) = Inr out"
    unfolding generate_note[OF assms] ms members_group_Some bindE_simps kids out by simp
next
  fix st i g n i' g' n'
  show "generate cl d (Comment e (Some (Members st i g n)))
        = generate cl d (Comment e (Some (Members st i' g' n')))"
    unfolding generate_note[OF assms] by (simp add: members_group_def deref_def bindE_simps)
qed

theorem note_layout_witness:
  "generate sample_closure 2 sample_note
     = Inr [Heading 2 [Text ''Intro''], Root [Paragraph [Text ''Read me first.'']],
            ThematicBreak, Heading 3 [Text ''a''],
            ThematicBreak, Heading 3 [Text ''b''],
            ThematicBreak, Heading 3 [Text ''c'']]
   \<and> (\<exists>outs.
         list_all2 (\<lambda>c y. generate sample_closure (2 + 1) c = Inr y)
           [leaf ''a'', leaf ''b'', leaf ''c''] outs
       \<and> [Heading 2 [Text ''Intro''], Root [Paragraph [Text ''Read me first.'']],
            ThematicBreak, Heading 3 [Text ''a''],
            ThematicBreak, Heading 3 [Text ''b''],
            ThematicBreak, Heading 3 [Text ''c'']]
           = Heading 2 [Text ''Intro''] # [Root [Paragraph [Text ''Read me first.'']]] @ concat outs)
   \<and> generate sample_closure 2
         (Comment (c_fields sample_note)
            (Some (Members (Some [leaf ''a'', leaf ''b'', leaf ''c'']) None None None)))
       = generate sample_closure 2 sample_note"
proof -
  let ?out = "[Heading 2 [Text ''Intro''], Root [Paragraph [Text ''Read me first.'']],
            ThematicBreak, Heading 3 [Text ''a''],
            ThematicBreak, Heading 3 [Text ''b''],
            ThematicBreak, Heading 3 [Text ''c'']]"
  have k: "kind (c_fields sample_note) = Some ''note''"
    by (simp add: sample_note_def blank_def)
  have m: "c_members sample_note
           = Some (Members (Some [leaf ''a'', leaf ''b'', leaf ''c''])
                           (Some [leaf ''hidden'']) (Some []) (Some []))"
    by (simp add: sample_note_def)
  have f: "name (c_fields sample_note) = Some ''Intro''"
      "description (c_fields sample_note) = Some [Paragraph [Text ''Read me first.'']]"
    by (simp_all add: sample_note_def blank_def)
  have c: "Comment (c_fields sample_note) (c_members sample_note) = sample_note"
    by simp
  note layout = note_layout [OF k, of sample_closure 2 "c_members sample_note" ?out]
  from layout sample_note_out obtain st i g n outs where
      ms: "c_members sample_note = Some (Members (Some st) i g n)"
    and outs: "list_all2 (\<lambda>c y. generate sample_closure (2 + 1) c = Inr y) st outs"
    and out: "?out = Heading 2 [Text (or_empty (name (c_fields sample_note)))]
                # (case description (c_fields sample_note) of None \<Rightarrow> [] | Some r \<Rightarrow> [Root r])
                @ concat outs"
    unfolding c by blast
  from ms have st: "st = [leaf ''a'', leaf ''b'', leaf ''c'']"
    unfolding m by simp
  have layout': "\<exists>outs.
         list_all2 (\<lambda>c y. generate sample_closure (2 + 1) c = Inr y)
           [leaf ''a'', leaf ''b'', leaf ''c''] outs
       \<and> ?out = Heading 2 [Text ''Intro''] # [Root [Paragraph [Text ''Read me first.'']]] @ concat outs"
    using outs out unfolding st f by auto
  have indep: "generate sample_closure 2
         (Comment (c_fields sample_note)
            (Some (Members (Some [leaf ''a'', leaf ''b'', leaf ''c'']) None None None)))
       = generate sample_closure 2 sample_note"
  proof -
    from layout have "generate sample_closure 2
         (Comment (c_fields sample_note)
            (Some (Members (Some [leaf ''a'', leaf ''b'', leaf ''c'']) None None None)))
       = generate sample_closure 2
         (Comment (c_fields sample_note)
            (Some (Members (Some [leaf ''a'', leaf ''b'', leaf ''c''])
                           (Some [leaf ''hidden'']) (Some []) (Some []))))"
      by blast
    then show ?thesis
      unfolding m[symmetric] c .
  qed
  show ?thesis
    using sample_note_out layout' indep by blast
qed

section \<open>The synthesized type section\<close>





section \<open>Omitted sections\<close>

text \<open>
  C7. In the output of a standard entry, the segment that belongs to a section is the empty
  list whenever the data of that section is empty: an empty \<^verbatim>\<open>params\<close>, \<^verbatim>\<open>properties\<close>,
  \<^verbatim>\<open>throws\<close>, \<^verbatim>\<open>sees\<close>, \<^verbatim>\<open>examples\<close> or \<^verbatim>\<open>augments\<close> sequence, or no metadata tag
  present. Nothing, in particular no empty list node, stands in its place.
\<close>

theorem empty_sections_omitted:
  assumes "kind e \<noteq> Some ''note''"
    and "generate cl d (Comment e ms) = Inr out"
  shows "\<exists>a_augments a_sees a_params a_properties a_throws a_examples kids.
           augmentsLink e = Inr a_augments
         \<and> seeLink e = Inr a_sees
         \<and> paramSection cl e = Inr a_params
         \<and> propertySection cl e = Inr a_properties
         \<and> throwsSection cl e = Inr a_throws
         \<and> examplesSection cl e = Inr a_examples
         \<and> out = own_nodes cl d (Comment e ms)
                   a_augments a_sees a_params a_properties a_throws a_examples @ kids
         \<and> (params e = Some [] \<longrightarrow> emitted a_params = [])
         \<and> (properties e = Some [] \<longrightarrow> emitted a_properties = [])
         \<and> (throws e = Some [] \<longrightarrow> emitted a_throws = [])
         \<and> (sees e = Some [] \<longrightarrow> emitted a_sees = [])
         \<and> (examples e = Some [] \<longrightarrow> emitted a_examples = [])
         \<and> (augments e = Some [] \<longrightarrow> emitted a_augments = [])
         \<and> (filter (\<lambda>tag. truthy_value (meta_prop e tag)) meta_tags = []
                \<longrightarrow> emitted (metaSection e) = [])"
proof -
  from assms obtain a1 a2 a3 a4 a5 a6 gl ins st inn kg ki ks kn where
      secs: "augmentsLink e = Inr a1" "seeLink e = Inr a2" "paramSection cl e = Inr a3"
            "propertySection cl e = Inr a4" "throwsSection cl e = Inr a5"
            "examplesSection cl e = Inr a6"
    and out: "out = own_nodes cl d (Comment e ms) a1 a2 a3 a4 a5 a6 @ kg @ ki @ ks @ kn"
    by (elim generate_standard_Inr)
  have e1: "augments e = Some [] \<longrightarrow> emitted a1 = []"
    using secs(1) by (auto simp: section_empty emitted_simps)
  have e2: "sees e = Some [] \<longrightarrow> emitted a2 = []"
    using secs(2) by (auto simp: section_empty emitted_simps)
  have e3: "params e = Some [] \<longrightarrow> emitted a3 = []"
    using secs(3) by (auto simp: section_empty emitted_simps)
  have e4: "properties e = Some [] \<longrightarrow> emitted a4 = []"
    using secs(4) by (auto simp: section_empty emitted_simps)
  have e5: "throws e = Some [] \<longrightarrow> emitted a5 = []"
    using secs(5) by (auto simp: section_empty emitted_simps)
  have e6: "examples e = Some [] \<longrightarrow> emitted a6 = []"
    using secs(6) by (auto simp: section_empty emitted_simps)
  have e7: "filter (\<lambda>tag. truthy_value (meta_prop e tag)) meta_tags = []
              \<longrightarrow> emitted (metaSection e) = []"
    by (auto simp: metaSection_empty emitted_simps simp del: meta_prop.simps)
  have out': "out = own_nodes cl d (Comment e ms) a1 a2 a3 a4 a5 a6 @ (kg @ ki @ ks @ kn)"
    using out by simp
  show ?thesis
    using secs out' e1 e2 e3 e4 e5 e6 e7 by blast
qed

theorem empty_sections_omitted_witness:
  "generate sample_closure 2 (leaf ''a'') = Inr [ThematicBreak, Heading 2 [Text ''a'']]
   \<and> (\<exists>a_augments a_sees a_params a_properties a_throws a_examples.
          augmentsLink (c_fields (leaf ''a'')) = Inr a_augments
        \<and> seeLink (c_fields (leaf ''a'')) = Inr a_sees
        \<and> paramSection sample_closure (c_fields (leaf ''a'')) = Inr a_params
        \<and> propertySection sample_closure (c_fields (leaf ''a'')) = Inr a_properties
        \<and> throwsSection sample_closure (c_fields (leaf ''a'')) = Inr a_throws
        \<and> examplesSection sample_closure (c_fields (leaf ''a'')) = Inr a_examples
        \<and> emitted a_params = [] \<and> emitted a_properties = [] \<and> emitted a_throws = []
        \<and> emitted a_sees = [] \<and> emitted a_examples = [] \<and> emitted a_augments = []
        \<and> emitted (metaSection (c_fields (leaf ''a''))) = [])"
proof -
  have k: "kind (c_fields (leaf ''a'')) \<noteq> Some ''note''"
    by (simp add: leaf_def blank_def)
  have g: "generate sample_closure 2 (Comment (c_fields (leaf ''a'')) (c_members (leaf ''a'')))
           = Inr [ThematicBreak, Heading 2 [Text ''a'']]"
    using leaf_generate by simp
  have empties:
    "params (c_fields (leaf ''a'')) = Some []" "properties (c_fields (leaf ''a'')) = Some []"
    "throws (c_fields (leaf ''a'')) = Some []" "sees (c_fields (leaf ''a'')) = Some []"
    "examples (c_fields (leaf ''a'')) = Some []" "augments (c_fields (leaf ''a'')) = Some []"
    "filter (\<lambda>tag. truthy_value (meta_prop (c_fields (leaf ''a'')) tag)) meta_tags = []"
    by (simp_all add: leaf_def blank_def meta_tags_def)
  from empty_sections_omitted [OF k g] empties leaf_generate
  show ?thesis
    by blast
qed

section \<open>The metadata section\<close>

text \<open>
  C8. When at least one metadata tag is present (truthy, as the source tests it), the
  metadata section is the \<^verbatim>\<open>Meta\<close> label and one list with exactly one item per present
  tag, in the fixed order version, since, copyright, author, license, deprecated. Record
  fields carry no order of assignment, so the order in which they were set cannot matter.
\<close>

theorem metaSection_items:
  assumes "\<exists>tag \<in> set meta_tags. truthy_value (meta_prop e tag)"
  shows "\<exists>items. metaSection e = Arr [N (Strong [Text ''Meta'']), N (ListNode False items)]
         \<and> map item_tag items
             = map Some (filter (\<lambda>tag. truthy_value (meta_prop e tag))
                 [''version'', ''since'', ''copyright'', ''author'', ''license'', ''deprecated''])
         \<and> length items = card {tag \<in> set meta_tags. truthy_value (meta_prop e tag)}"
proof -
  let ?meta = "filter (\<lambda>tag. truthy_value (meta_prop e tag)) meta_tags"
  let ?items = "map (\<lambda>tag. ListItem [Paragraph [Strong [Text tag], Text '': '', metaContent e tag]]) ?meta"
  have ne: "?meta \<noteq> []"
    using assms by (simp add: filter_empty_conv)
  have "distinct meta_tags" by (simp add: meta_tags_def)
  then have card: "length ?meta = card {tag \<in> set meta_tags. truthy_value (meta_prop e tag)}"
    by (metis distinct_filter distinct_card set_filter)
  have sec: "metaSection e = Arr [N (Strong [Text ''Meta'']), N (ListNode False ?items)]"
    using ne by (simp add: metaSection_def Let_def del: meta_prop.simps metaContent.simps)
  have tags: "map item_tag ?items = map Some ?meta"
    by (simp add: comp_def del: meta_prop.simps metaContent.simps)
  show ?thesis
    using sec tags card by (intro exI[of _ ?items]) (simp add: meta_tags_def del: meta_prop.simps metaContent.simps)
qed

theorem metaSection_items_witness:
  "\<exists>items. metaSection sample_meta = Arr [N (Strong [Text ''Meta'']), N (ListNode False items)]
     \<and> map item_tag items = [Some ''since'', Some ''deprecated'']
     \<and> length items = 2"
proof -
  have p: "filter (\<lambda>tag. truthy_value (meta_prop sample_meta tag))
             [''version'', ''since'', ''copyright'', ''author'', ''license'', ''deprecated'']
           = [''since'', ''deprecated'']"
    by (simp add: sample_meta_def blank_def)
  have h: "\<exists>tag \<in> set meta_tags. truthy_value (meta_prop sample_meta tag)"
    by (simp add: sample_meta_def blank_def meta_tags_def)
  from metaSection_items [OF h] obtain items where
    i: "metaSection sample_meta = Arr [N (Strong [Text ''Meta'']), N (ListNode False items)]"
       "map item_tag items = map Some (filter (\<lambda>tag. truthy_value (meta_prop sample_meta tag))
                 [''version'', ''since'', ''copyright'', ''author'', ''license'', ''deprecated''])"
    by blast
  have "length (map item_tag items) = 2"
    unfolding i(2) p by simp
  then show ?thesis
    using i unfolding p by auto
qed

section \<open>Failure on malformed forests\<close>

text \<open>
  C9. On a well-formed forest \<^verbatim>\<open>buildMarkdownAST\<close> returns a tree; so an error can only come
  from a forest that is not well formed. An entry without \<^verbatim>\<open>members\<close> makes the whole call
  fail with the \<^verbatim>\<open>TypeError\<close>, whatever was generated for the entries before it: the
  result is the error, not a tree.
\<close>

theorem generation_total_on_well_formed:
  "(list_all well_formed comments \<longrightarrow> (\<exists>root. buildMarkdownAST ext comments cfg = Inr root))
   \<and> (\<forall>err. buildMarkdownAST ext comments cfg = Inl err \<longrightarrow> \<not> list_all well_formed comments)
   \<and> buildMarkdownAST ext (good @ Comment e None # rest) cfg = Inl TypeError"
proof -
  have total: "\<exists>root. buildMarkdownAST ext comments cfg = Inr root"
    if wf: "list_all well_formed comments"
  proof -
    have "\<exists>body. children cl 2 comments = Inr body" for cl
    proof (rule children_succeed)
      fix x
      assume "x \<in> set comments"
      then show "\<exists>y. generate cl 2 x = Inr y"
        using wf by (auto simp: list_all_iff intro: well_formed_generate)
    qed
    then show ?thesis
      unfolding buildMarkdownAST_def Let_def by (metis bindE_simps(2))
  qed
  have fatal: "buildMarkdownAST ext (good @ Comment e None # rest) cfg = Inl TypeError"
    by (simp add: buildMarkdownAST_def Let_def children_failing_entry
          generate_missing_members bindE_simps)
  show ?thesis
    using total fatal by auto
qed

theorem generation_total_on_well_formed_witness:
  "list_all well_formed sample_forest
   \<and> (\<exists>root. buildMarkdownAST sample_collaborators sample_forest sample_config = Inr root)
   \<and> buildMarkdownAST sample_collaborators ([leaf ''a''] @ Comment blank None # [leaf ''b''])
         sample_config = Inl TypeError"
proof -
  have w: "list_all well_formed sample_forest" by code_simp
  show ?thesis
    using generation_total_on_well_formed
      [of sample_forest sample_collaborators sample_config "[leaf ''a'']" blank "[leaf ''b'']"] w
    by blast
qed

section \<open>The sections that are never emitted\<close>

text \<open>
  C10. The tree \<^verbatim>\<open>buildMarkdownAST\<close> assembles (before the post-processing passes) contains
  no \<^verbatim>\<open>Returns:\<close> paragraph and no \<^verbatim>\<open>Source: \<close> paragraph at any depth, provided none came
  in with the content supplied from outside (descriptions and the like, and what the
  formatter renders). \<^verbatim>\<open>returnsSection\<close> and \<^verbatim>\<open>githubLink\<close> would build such paragraphs
  (\<open>returnsSection_is_section\<close>, \<open>githubLink_is_section\<close>), but \<^verbatim>\<open>generate\<close> does not call them.
\<close>

theorem returns_and_source_sections_absent:
  assumes "children cl 2 comments = Inr body"
    and "list_all clean_comment comments"
    and "\<forall>arg. \<not> list_ex contains_section (formatType cl arg)"
  shows "\<not> contains_section
           (Root (generatorComment
                  @ (if with_toc then tableOfContentsHeading else [])
                  @ body @ [ThematicBreak]))"
proof -
  have fmt: "\<forall>arg. clean (formatType cl arg)"
    using assms(3) by (simp add: clean_def)
  have "clean body"
    using assms(1)
  proof (rule children_clean)
    fix x y
    assume "x \<in> set comments" "generate cl 2 x = Inr y"
    then show "clean y"
      using assms(2) generate_clean[OF fmt] by (auto simp: list_all_iff)
  qed
  then show ?thesis
    by (simp add: clean_def generatorComment_def tableOfContentsHeading_def)
qed

theorem returns_and_source_sections_absent_witness:
  "returns (c_fields sample_function) \<noteq> Some []
   \<and> Option.bind (c_context (c_fields sample_function)) github \<noteq> None
   \<and> children sample_closure 2 [sample_function] = Inr sample_function_out
   \<and> \<not> contains_section
         (Root (generatorComment @ tableOfContentsHeading @ sample_function_out @ [ThematicBreak]))"
proof -
  have c: "children sample_closure 2 [sample_function] = Inr sample_function_out"
    by code_simp
  have k: "list_all clean_comment [sample_function]"
    by code_simp
  have f: "\<forall>arg. \<not> list_ex contains_section (formatType sample_closure arg)"
    by (simp add: sample_closure_def sample_format_clean)
  have r: "returns (c_fields sample_function) \<noteq> Some []"
    "Option.bind (c_context (c_fields sample_function)) github \<noteq> None"
    by (simp_all add: sample_function_def blank_def)
  from returns_and_source_sections_absent [OF c k f, of True] r c
  show ?thesis
    by simp
qed

end
